theory Spec2Isabelle
  imports Main "HOL-Library.Sublist"
begin

section \<open>Strings, integers and errors of the Python program\<close>

text \<open>
  The program is \<^verbatim>\<open>chapterize_ab.py\<close>. Python strings are modelled as \<open>string\<close>;
  the character classes of the \<^verbatim>\<open>re\<close> module and of \<^verbatim>\<open>int()\<close> are those
  of the code points below 256. Every exception the modelled code can raise is a value
  of \<open>error\<close>; \<^verbatim>\<open>sys.exit(n)\<close> is \<open>SysExit n\<close>.
\<close>

datatype error =
    ValueError | IndexError | KeyError | TypeError | OverflowError | FileNotFoundError
  | SysExit nat

definition is_digit :: "char \<Rightarrow> bool" where
  \<comment> \<open>\<^verbatim>\<open>\d\<close> of \<^verbatim>\<open>re\<close>, and the digits \<^verbatim>\<open>int()\<close> accepts\<close>
  "is_digit c = (c \<in> set ''0123456789'')"

definition is_space :: "char \<Rightarrow> bool" where
  \<comment> \<open>\<^verbatim>\<open>\s\<close> of \<^verbatim>\<open>re\<close>: code points 9-13, 28-32, 133 and 160\<close>
  "is_space c = (c \<in> set [CHR 0x09, CHR 0x0A, CHR 0x0B, CHR 0x0C, CHR 0x0D, CHR 0x1C, CHR 0x1D,
                           CHR 0x1E, CHR 0x1F, CHR 0x20, CHR 0x85, CHR 0xA0])"

definition is_int_space :: "char \<Rightarrow> bool" where
  \<comment> \<open>the whitespace \<^verbatim>\<open>int()\<close> strips: code points 9-13, 32, 133 and 160; the
      separators 28-31 are not among them\<close>
  "is_int_space c = (c \<in> set [CHR 0x09, CHR 0x0A, CHR 0x0B, CHR 0x0C, CHR 0x0D, CHR 0x20,
                               CHR 0x85, CHR 0xA0])"

definition digit_of :: "char \<Rightarrow> nat" where
  "digit_of c = of_char c - 48"

definition digit_char :: "nat \<Rightarrow> char" where
  "digit_char n = ''0123456789'' ! n"

fun int_literal :: "string \<Rightarrow> bool" where
  \<comment> \<open>decimal digits, single underscores allowed between two digits\<close>
  "int_literal [] = False"
| "int_literal [c] = is_digit c"
| "int_literal (c # d # r) =
     (is_digit c \<and> (if d = CHR ''_'' then int_literal r else int_literal (d # r)))"

definition digits_value :: "string \<Rightarrow> nat" where
  "digits_value ds = foldl (\<lambda>n c. 10 * n + digit_of c) 0 ds"

definition strip_space :: "string \<Rightarrow> string" where
  "strip_space s = rev (dropWhile is_int_space (rev (dropWhile is_int_space s)))"

definition py_int :: "string \<Rightarrow> error + int" where
  \<comment> \<open>\<^verbatim>\<open>int(s)\<close>: surrounding whitespace, an optional sign, a decimal literal\<close>
  "py_int s =
     (let t = strip_space s;
          neg = (t \<noteq> [] \<and> hd t = CHR ''-'');
          body = (if t \<noteq> [] \<and> (hd t = CHR ''-'' \<or> hd t = CHR ''+'') then tl t else t)
      in if int_literal body
         then Inr ((if neg then - 1 else 1) * int (digits_value (filter is_digit body)))
         else Inl ValueError)"

fun str_nat :: "nat \<Rightarrow> string" where
  "str_nat n = (if n < 10 then [digit_char n] else str_nat (n div 10) @ [digit_char (n mod 10)])"

declare str_nat.simps [simp del]

definition py_str :: "int \<Rightarrow> string" where
  \<comment> \<open>\<^verbatim>\<open>str(i)\<close> for an integer\<close>
  "py_str i = (if i < 0 then CHR ''-'' # str_nat (nat (- i)) else str_nat (nat i))"

fun split_on :: "char \<Rightarrow> string \<Rightarrow> string list" where
  \<comment> \<open>\<^verbatim>\<open>s.split(sep)\<close> for a separator of one character\<close>
  "split_on sep [] = [[]]"
| "split_on sep (c # cs) =
     (if c = sep then [] # split_on sep cs
      else (case split_on sep cs of p # ps \<Rightarrow> (c # p) # ps | [] \<Rightarrow> [[c]]))"

fun join :: "string \<Rightarrow> string list \<Rightarrow> string" where
  \<comment> \<open>\<^verbatim>\<open>sep.join(parts)\<close>\<close>
  "join sep [] = []"
| "join sep [p] = p"
| "join sep (p # q # ps) = p @ sep @ join sep (q # ps)"

fun str_in :: "string \<Rightarrow> string \<Rightarrow> bool" where
  \<comment> \<open>\<^verbatim>\<open>x in s\<close> for two strings: \<open>x\<close> occurs in \<open>s\<close>\<close>
  "str_in x [] = (x = [])"
| "str_in x (c # cs) = (prefix x (c # cs) \<or> str_in x cs)"

definition replace_char :: "char \<Rightarrow> char \<Rightarrow> string \<Rightarrow> string" where
  \<comment> \<open>\<^verbatim>\<open>s.replace(a, b)\<close> for two strings of one character\<close>
  "replace_char a b s = map (\<lambda>c. if c = a then b else c) s"

section \<open>The boundary decrementer: \<^verbatim>\<open>convert_time\<close>\<close>

definition re_0d :: "string \<Rightarrow> bool" where
  \<comment> \<open>\<^verbatim>\<open>re.compile(r'0\d').match(s)\<close>: a match at the start of \<open>s\<close>\<close>
  "re_0d s = (case s of a # b # _ \<Rightarrow> a = CHR ''0'' \<and> is_digit b | _ \<Rightarrow> False)"

definition dec_str :: "string \<Rightarrow> error + string" where
  \<comment> \<open>\<^verbatim>\<open>str(int(x) - 1)\<close>\<close>
  "dec_str x = (case py_int x of Inl e \<Rightarrow> Inl e | Inr n \<Rightarrow> Inr (py_str (n - 1)))"

definition dec_padded :: "string \<Rightarrow> error + string" where
  \<comment> \<open>\<^verbatim>\<open>f'0{str(int(x) - 1)}'\<close>\<close>
  "dec_padded x = (case dec_str x of Inl e \<Rightarrow> Inl e | Inr d \<Rightarrow> Inr (CHR ''0'' # d))"

definition convert_parts :: "string list \<Rightarrow> string \<Rightarrow> error + string list" where
  \<comment> \<open>the body of the \<^verbatim>\<open>try\<close> after \<open>last\<close> and \<open>milliseconds\<close> are bound:
      the new value of \<open>parts\<close>\<close>
  "convert_parts parts lst =
     (if re_0d lst then
        (if length parts < 2 then Inl IndexError
         else if parts ! 1 = ''00'' \<and> lst = ''00'' then
           (case (if re_0d (parts ! 0) then dec_padded (parts ! 0) else dec_str (parts ! 0)) of
              Inl e \<Rightarrow> Inl e
            | Inr first \<Rightarrow> Inr [first, ''59'', ''59''])
         else if lst = ''00'' then
           (case (if re_0d (parts ! 1) then dec_padded (parts ! 1) else dec_str (parts ! 1)) of
              Inl e \<Rightarrow> Inl e
            | Inr mid \<Rightarrow> Inr [parts ! 0, mid, ''59''])
         else
           (case dec_padded lst of
              Inl e \<Rightarrow> Inl e
            | Inr d \<Rightarrow> Inr (butlast parts @ [d])))
      else
        (case dec_str lst of
           Inl e \<Rightarrow> Inl e
         | Inr d \<Rightarrow> Inr (butlast parts @ [d])))"

definition convert_time :: "string \<Rightarrow> error + string" where
  \<comment> \<open>every exception inside the \<^verbatim>\<open>try\<close> is caught and ends in \<^verbatim>\<open>sys.exit(6)\<close>;
      unpacking \<^verbatim>\<open>parts[-1].split('.')\<close> into two names raises unless there are
      exactly two pieces\<close>
  "convert_time time =
     (let parts = split_on CHR '':'' time in
      case split_on CHR ''.'' (last parts) of
        [lst, milliseconds] \<Rightarrow>
          (case convert_parts parts lst of
             Inl e \<Rightarrow> Inl (SysExit 6)
           | Inr parts' \<Rightarrow> Inr (join '':'' parts' @ ''.'' @ milliseconds))
      | _ \<Rightarrow> Inl (SysExit 6))"

section \<open>The duration codec: \<^verbatim>\<open>parse_timestamp\<close> and \<^verbatim>\<open>format_timestamp_from_float\<close>\<close>

text \<open>
  A \<^verbatim>\<open>datetime.timedelta\<close> holds days, seconds (below 86400) and microseconds
  (below 1000000); its constructor normalises whatever it is given.
\<close>

record timedelta =
  days :: int
  seconds :: int
  microseconds :: int

definition timedelta_of_us :: "int \<Rightarrow> timedelta" where
  "timedelta_of_us u =
     \<lparr>days = u div 86400000000,
      seconds = (u mod 86400000000) div 1000000,
      microseconds = u mod 1000000\<rparr>"

definition total_us :: "timedelta \<Rightarrow> int" where
  "total_us td = (days td * 86400 + seconds td) * 1000000 + microseconds td"

definition field2 :: "nat \<Rightarrow> string \<Rightarrow> nat option" where
  \<comment> \<open>a directive of \<^verbatim>\<open>strptime\<close> that takes one or two digits, with its bound:
      \<^verbatim>\<open>%H\<close> is \<^verbatim>\<open>2[0-3]|[0-1]\d|\d\<close>, \<^verbatim>\<open>%M\<close> is \<^verbatim>\<open>[0-5]\d|\d\<close>,
      \<^verbatim>\<open>%S\<close> is \<^verbatim>\<open>6[0-1]|[0-5]\d|\d\<close>\<close>
  "field2 hi s =
     (if (length s = 1 \<or> length s = 2) \<and> list_all is_digit s \<and> digits_value s \<le> hi
      then Some (digits_value s) else None)"

definition strptime :: "string \<Rightarrow> (nat \<times> nat \<times> nat \<times> nat) option" where
  \<comment> \<open>\<^verbatim>\<open>datetime.strptime(t, "%H:%M:%S.%f")\<close>: hour, minute, second, microsecond
      of the result, \<open>None\<close> for ValueError. The whole text must match; \<^verbatim>\<open>%f\<close> is one
      to six digits, padded with zeros on the right; a second of 60 or 61 matches the
      directive and is then refused by the \<^verbatim>\<open>datetime\<close> constructor.\<close>
  "strptime t =
     (case split_on CHR '':'' t of
        [h, m, r] \<Rightarrow>
          (case split_on CHR ''.'' r of
             [s, f] \<Rightarrow>
               (case (field2 23 h, field2 59 m, field2 61 s) of
                  (Some H, Some M, Some S) \<Rightarrow>
                    if 1 \<le> length f \<and> length f \<le> 6 \<and> list_all is_digit f \<and> S \<le> 59
                    then Some (H, M, S, digits_value f * 10 ^ (6 - length f))
                    else None
                | _ \<Rightarrow> None)
           | _ \<Rightarrow> None)
      | _ \<Rightarrow> None)"

definition parse_timestamp :: "string \<Rightarrow> error + timedelta" where
  "parse_timestamp time =
     (let time' = (if CHR ''.'' \<notin> set time then time @ ''.0'' else time) in
      case strptime time' of
        None \<Rightarrow> Inl ValueError
      | Some (H, M, S, us) \<Rightarrow>
          Inr (timedelta_of_us (((int H * 60 + int M) * 60 + int S) * 1000000 + int us)))"

definition zero_pad :: "nat \<Rightarrow> int \<Rightarrow> string" where
  \<comment> \<open>\<^verbatim>\<open>'{:0w}'.format(n)\<close> for an integer: zeros between the sign and the digits\<close>
  "zero_pad w n =
     (if n < 0 then CHR ''-'' # replicate (w - 1 - length (str_nat (nat (- n)))) CHR ''0''
                      @ str_nat (nat (- n))
      else replicate (w - length (str_nat (nat n))) CHR ''0'' @ str_nat (nat n))"

definition format_timestamp_from_float :: "int \<Rightarrow> error + string" where
  \<comment> \<open>The argument stands for the float \<open>seconds\<close>: it is the number of microseconds
      that \<^verbatim>\<open>timedelta(seconds=seconds)\<close> holds once the constructor has rounded the
      float to a whole microsecond, so the model starts at \<open>td\<close> and every bound stated
      on the argument is a bound on the rounded value. For the total duration this is
      the number \<^verbatim>\<open>ffprobe\<close> prints, which has six decimals. The constructor refuses
      more than 999999999 days.\<close>
  "format_timestamp_from_float u =
     (let td = timedelta_of_us u in
      if \<bar>days td\<bar> > 999999999 then Inl OverflowError
      else
        let hours = seconds td div 3600; remainder = seconds td mod 3600;
            minutes = remainder div 60; secs = remainder mod 60;
            milliseconds = microseconds td div 1000
        in Inr (zero_pad 2 hours @ '':'' @ zero_pad 2 minutes @ '':'' @ zero_pad 2 secs
                @ '','' @ zero_pad 3 milliseconds))"

definition valid_hms :: "string \<Rightarrow> bool" where
  \<comment> \<open>not in the source, used to state the round trip: a text \<^verbatim>\<open>HH:MM:SS.mmm\<close> of two
      digits for each of hours, minutes and seconds and three for the milliseconds, with
      minutes and seconds below 60; the hours are any two digits\<close>
  "valid_hms t =
     (case t of
        [h1, h2, c1, m1, m2, c2, s1, s2, c3, f1, f2, f3] \<Rightarrow>
          list_all is_digit [h1, h2, m1, m2, s1, s2, f1, f2, f3]
          \<and> c1 = CHR '':'' \<and> c2 = CHR '':'' \<and> c3 = CHR ''.''
          \<and> digits_value [m1, m2] \<le> 59 \<and> digits_value [s1, s2] \<le> 59
      | _ \<Rightarrow> False)"

definition hours_of :: "string \<Rightarrow> nat" where
  \<comment> \<open>the hours field of such a text\<close>
  "hours_of t = digits_value (take 2 t)"

definition digit_field :: "string \<Rightarrow> nat \<Rightarrow> bool" where
  \<comment> \<open>not in the source, used in the proofs: one or two digits of value \<open>v\<close>\<close>
  "digit_field p v = (list_all is_digit p \<and> (length p = 1 \<or> length p = 2) \<and> digits_value p = v)"

definition clock_text :: "string \<Rightarrow> bool" where
  \<comment> \<open>not in the source, used to state what the end of a boundary denotes: a text
      \<^verbatim>\<open>HH:MM:SS.f\<close> of two digits each for hours below 24, minutes and seconds below
      60, and one to six digits of fraction, the texts the detector takes from a
      transcript written by \<open>format_timestamp_from_float\<close>\<close>
  "clock_text s =
     (case s of
        h1 # h2 # c1 # m1 # m2 # c2 # s1 # s2 # c3 # f \<Rightarrow>
          list_all is_digit [h1, h2, m1, m2, s1, s2]
          \<and> c1 = CHR '':'' \<and> c2 = CHR '':'' \<and> c3 = CHR ''.''
          \<and> f \<noteq> [] \<and> length f \<le> 6 \<and> list_all is_digit f
          \<and> digits_value [h1, h2] \<le> 23 \<and> digits_value [m1, m2] \<le> 59
          \<and> digits_value [s1, s2] \<le> 59
      | _ \<Rightarrow> False)"

section \<open>The chapter boundary detector: \<^verbatim>\<open>parse_timecodes\<close>\<close>

text \<open>
  A timecode is a Python dict with the keys \<^verbatim>\<open>'start'\<close>, \<^verbatim>\<open>'chapter_type'\<close> and
  \<^verbatim>\<open>'end'\<close>, each present or not.
\<close>

record timecode =
  start :: "string option"
  chapter_type :: "string option"
  end_t :: "string option"

definition is_upper :: "char \<Rightarrow> bool" where
  \<comment> \<open>the upper-case letters below code point 256: A-Z, and 192-222 without 215\<close>
  "is_upper c =
     (let n = (of_char c :: nat)
      in (65 \<le> n \<and> n \<le> 90) \<or> (192 \<le> n \<and> n \<le> 214) \<or> (216 \<le> n \<and> n \<le> 222))"

definition is_lower :: "char \<Rightarrow> bool" where
  \<comment> \<open>the other cased characters below code point 256: a-z, 170, 181, 186, and 223-255
      without 247\<close>
  "is_lower c =
     (let n = (of_char c :: nat)
      in (97 \<le> n \<and> n \<le> 122) \<or> n = 170 \<or> n = 181 \<or> n = 186
         \<or> (223 \<le> n \<and> n \<le> 246) \<or> (248 \<le> n \<and> n \<le> 255))"

definition to_title :: "char \<Rightarrow> string" where
  \<comment> \<open>the title case of one character: a-z, 224-246 and 248-254 go 32 code points down,
      223 (sharp s) becomes \<^verbatim>\<open>Ss\<close>, 170 and 186 have no other case. The title case of
      181 and of 255 is a code point above 255; the model leaves these two as they are.\<close>
  "to_title c =
     (let n = (of_char c :: nat)
      in if (97 \<le> n \<and> n \<le> 122) \<or> (224 \<le> n \<and> n \<le> 246) \<or> (248 \<le> n \<and> n \<le> 254)
         then [char_of (n - 32)]
         else if n = 223 then ''Ss''
         else [c])"

definition to_lower :: "char \<Rightarrow> char" where
  "to_lower c = (if is_upper c then char_of (of_char c + (32::nat)) else c)"

fun title_from :: "bool \<Rightarrow> string \<Rightarrow> string" where
  "title_from prev [] = []"
| "title_from prev (c # cs) =
     (if prev then [to_lower c] else to_title c) @ title_from (is_upper c \<or> is_lower c) cs"

definition title :: "string \<Rightarrow> string" where
  \<comment> \<open>\<^verbatim>\<open>s.title()\<close>: a cased character is in title case after an uncased one and in
      lower case after a cased one\<close>
  "title s = title_from False s"

definition start_match_at :: "string \<Rightarrow> string option" where
  \<comment> \<open>\<^verbatim>\<open>\d\d:\d\d:\d\d,\d+(?=\s-)\<close> matched at the head of the text. The greedy
      \<^verbatim>\<open>\d+\<close> takes every digit; a shorter run would leave a digit where the
      lookahead wants whitespace.\<close>
  "start_match_at s =
     (case s of
        h1 # h2 # c1 # m1 # m2 # c2 # s1 # s2 # c3 # rest \<Rightarrow>
          if is_digit h1 \<and> is_digit h2 \<and> c1 = CHR '':'' \<and> is_digit m1 \<and> is_digit m2
             \<and> c2 = CHR '':'' \<and> is_digit s1 \<and> is_digit s2 \<and> c3 = CHR '',''
             \<and> takeWhile is_digit rest \<noteq> []
             \<and> (case dropWhile is_digit rest of
                   w # d # _ \<Rightarrow> is_space w \<and> d = CHR ''-''
                 | _ \<Rightarrow> False)
          then Some ([h1, h2, c1, m1, m2, c2, s1, s2, c3] @ takeWhile is_digit rest)
          else None
      | _ \<Rightarrow> None)"

fun re_search_start :: "string \<Rightarrow> string option" where
  \<comment> \<open>\<^verbatim>\<open>re.search\<close> of that pattern: group 0 of the leftmost match\<close>
  "re_search_start [] = None"
| "re_search_start (c # cs) =
     (case start_match_at (c # cs) of
        Some g \<Rightarrow> Some g
      | None \<Rightarrow> re_search_start cs)"

definition marker_in :: "string list \<Rightarrow> nat \<Rightarrow> string \<Rightarrow> error + bool" where
  \<comment> \<open>\<^verbatim>\<open>markers[k] in s\<close>\<close>
  "marker_in markers k s =
     (if k < length markers then Inr (str_in (markers ! k) s) else Inl IndexError)"

definition chapter_count :: "int \<Rightarrow> string" where
  \<comment> \<open>\<^verbatim>\<open>f'0{counter}' if counter < 10 else f'{counter}'\<close>\<close>
  "chapter_count counter = (if counter < 10 then CHR ''0'' # py_str counter else py_str counter)"

definition chapter_label :: "string list \<Rightarrow> int \<Rightarrow> string" where
  \<comment> \<open>\<^verbatim>\<open>f'{markers[2].title()} {chapter_count}'\<close>\<close>
  "chapter_label markers counter = title (markers ! 2) @ '' '' @ chapter_count counter"

definition classify :: "string list \<Rightarrow> string \<Rightarrow> int \<Rightarrow> error + string \<times> int" where
  \<comment> \<open>the \<^verbatim>\<open>if/elif\<close> chain that sets \<open>chapter_type\<close>, with the counter after it;
      \<^verbatim>\<open>or\<close> does not evaluate \<^verbatim>\<open>markers[1]\<close> when \<^verbatim>\<open>markers[0]\<close> is found\<close>
  "classify markers nxt counter =
     (case marker_in markers 0 nxt of
        Inl e \<Rightarrow> Inl e
      | Inr b0 \<Rightarrow>
          (case (if b0 then Inr True else marker_in markers 1 nxt) of
             Inl e \<Rightarrow> Inl e
           | Inr True \<Rightarrow> Inr (title (markers ! 0), counter)
           | Inr False \<Rightarrow>
               (case marker_in markers 2 nxt of
                  Inl e \<Rightarrow> Inl e
                | Inr True \<Rightarrow> Inr (chapter_label markers counter, counter + 1)
                | Inr False \<Rightarrow>
                    (case marker_in markers 3 nxt of
                       Inl e \<Rightarrow> Inl e
                     | Inr True \<Rightarrow> Inr (title (markers ! 2), counter)
                     | Inr False \<Rightarrow> Inr ([], counter)))))"

definition recognised :: "string list \<Rightarrow> string list \<Rightarrow> string \<Rightarrow> bool" where
  \<comment> \<open>the lookahead line holds no excluded phrase and holds a marker\<close>
  "recognised excluded_phrases markers nxt =
     (\<not> list_ex (\<lambda>x. str_in x nxt) excluded_phrases \<and> list_ex (\<lambda>m. str_in m nxt) markers)"

definition scan_step ::
  "string list \<Rightarrow> string list \<Rightarrow> string \<Rightarrow> string \<Rightarrow> timecode list \<times> int
     \<Rightarrow> error + timecode list \<times> int" where
  \<comment> \<open>one round of the first loop, at a line that is not the last one; the state is
      \<open>timecodes\<close> and \<open>counter\<close>\<close>
  "scan_step excluded_phrases markers line nxt st =
     (if recognised excluded_phrases markers nxt then
        (case re_search_start line of
           Some g \<Rightarrow>
             (case classify markers nxt (snd st) of
                Inl e \<Rightarrow> Inl e
              | Inr (label, counter') \<Rightarrow>
                  Inr (fst st @
                       [\<lparr>start = Some (if fst st = [] then ''00:00:00''
                                        else replace_char CHR '','' CHR ''.'' g),
                         chapter_type = Some label, end_t = None\<rparr>],
                       counter'))
         | None \<Rightarrow> Inr st)
      else Inr st)"

fun scan ::
  "string list \<Rightarrow> string list \<Rightarrow> string list \<Rightarrow> timecode list \<times> int
     \<Rightarrow> error + timecode list \<times> int" where
  \<comment> \<open>the first loop; the last line has no lookahead and is passed over\<close>
  "scan excluded_phrases markers [] st = Inr st"
| "scan excluded_phrases markers [line] st = Inr st"
| "scan excluded_phrases markers (line # nxt # rest) st =
     (case scan_step excluded_phrases markers line nxt st of
        Inl e \<Rightarrow> Inl e
      | Inr st' \<Rightarrow> scan excluded_phrases markers (nxt # rest) st')"

fun candidates :: "string list \<Rightarrow> string list \<Rightarrow> string list \<Rightarrow> (string \<times> string) list" where
  \<comment> \<open>not in the source, used to state what the loop extracts: the positions of the
      transcript where the lookahead line is recognised and the line has a start
      timestamp, in order, each with the text the pattern matched and the lookahead\<close>
  "candidates excluded_phrases markers [] = []"
| "candidates excluded_phrases markers [line] = []"
| "candidates excluded_phrases markers (line # nxt # rest) =
     (if recognised excluded_phrases markers nxt then
        (case re_search_start line of Some g \<Rightarrow> [(g, nxt)] | None \<Rightarrow> [])
      else [])
     @ candidates excluded_phrases markers (nxt # rest)"

fun add_ends :: "timecode list \<Rightarrow> error + timecode list" where
  \<comment> \<open>the second loop: every entry but the last gets
      \<^verbatim>\<open>d['end'] = convert_time(timecodes[i+1]['start'])\<close>\<close>
  "add_ends [] = Inr []"
| "add_ends [d] = Inr [d]"
| "add_ends (d # d' # ds) =
     (case start d' of
        None \<Rightarrow> Inl KeyError
      | Some s \<Rightarrow>
          (case convert_time s of
             Inl e \<Rightarrow> Inl e
           | Inr t \<Rightarrow>
               (case add_ends (d' # ds) of
                  Inl e \<Rightarrow> Inl e
                | Inr r \<Rightarrow> Inr (d\<lparr>end_t := Some t\<rparr> # r))))"

definition parse_timecodes ::
  "string list \<Rightarrow> string list \<Rightarrow> string list \<Rightarrow> error + timecode list" where
  \<comment> \<open>\<^verbatim>\<open>get_language_features(language)\<close> is not part of this file: its result, the
      excluded phrases and the markers of the language, is the first two arguments
      (an absent table is the empty list)\<close>
  "parse_timecodes excluded_phrases markers srt_content =
     (if excluded_phrases = [] \<or> markers = [] then Inl (SysExit 13)
      else
        case scan excluded_phrases markers srt_content ([], 1) of
          Inl e \<Rightarrow> Inl e
        | Inr (timecodes, counter) \<Rightarrow>
            (case add_ends timecodes of
               Inl e \<Rightarrow> Inl e
             | Inr timecodes' \<Rightarrow>
                 if timecodes' \<noteq> [] then Inr timecodes' else Inl (SysExit 8)))"

definition set_last_end :: "timecode list \<Rightarrow> int \<Rightarrow> error + timecode list" where
  \<comment> \<open>the first statement of \<^verbatim>\<open>apply_chapters\<close>; the second argument is the total
      duration that \<^verbatim>\<open>get_total_duration\<close> returns, in the representation
      \<open>format_timestamp_from_float\<close> takes. The right-hand side is evaluated before
      \<^verbatim>\<open>timecodes[-1]\<close>.\<close>
  "set_last_end timecodes duration =
     (case format_timestamp_from_float duration of
        Inl e \<Rightarrow> Inl e
      | Inr t \<Rightarrow>
          if timecodes = [] then Inl IndexError
          else Inr (butlast timecodes
                    @ [(last timecodes)\<lparr>end_t := Some (replace_char CHR '','' CHR ''.'' t)\<rparr>]))"

section \<open>The sidecar file: \<^verbatim>\<open>write_cue_file\<close> and \<^verbatim>\<open>read_cue_file\<close>\<close>

text \<open>
  The file system maps the text of a path to the content of the file there. A
  \<^verbatim>\<open>pathlib.Path\<close> is its text and its \<^verbatim>\<open>stem\<close>. Opening and writing fail in the
  model for no other reason than the one \<^verbatim>\<open>open(cue_path, 'x')\<close> checks: the file
  exists.
\<close>

type_synonym filesystem = "string \<Rightarrow> string option"

record path =
  pathname :: string
  stem :: string

abbreviation TAB :: char where "TAB \<equiv> CHR 0x09"
abbreviation NL :: char where "NL \<equiv> CHR 0x0A"
abbreviation CR :: char where "CR \<equiv> CHR 0x0D"
abbreviation QUOTE :: char where "QUOTE \<equiv> CHR 0x22"

definition cue_block :: "nat \<Rightarrow> nat \<Rightarrow> timecode \<Rightarrow> string \<times> error option" where
  \<comment> \<open>what one round of the loop writes for track \<open>i\<close> of \<open>n\<close>, and the KeyError that ends
      it: the list given to \<^verbatim>\<open>writelines\<close> is built before anything is written, the
      \<^verbatim>\<open>END\<close> line is written after it\<close>
  "cue_block n i time =
     (case (chapter_type time, start time) of
        (Some label, Some s) \<Rightarrow>
          (let head = ''TRACK '' @ py_str (int i) @ '' AUDIO'' @ [NL]
                      @ ''  TITLE'' @ [TAB, QUOTE] @ label @ [QUOTE, NL]
                      @ ''  START'' @ [TAB] @ s @ [NL]
           in if i \<noteq> n then
                (case end_t time of
                   Some e \<Rightarrow> (head @ ''  END'' @ [TAB, TAB] @ e @ [NL], None)
                 | None \<Rightarrow> (head, Some KeyError))
              else (head, None))
      | _ \<Rightarrow> ([], Some KeyError))"

fun write_tracks :: "nat \<Rightarrow> nat \<Rightarrow> timecode list \<Rightarrow> string \<times> error option" where
  \<comment> \<open>the loop over \<^verbatim>\<open>enumerate(timecodes, start=1)\<close>, from track \<open>i\<close> on\<close>
  "write_tracks n i [] = ([], None)"
| "write_tracks n i (time # rest) =
     (case cue_block n i time of
        (text, Some e) \<Rightarrow> (text, Some e)
      | (text, None) \<Rightarrow>
          (case write_tracks n (Suc i) rest of (text', r) \<Rightarrow> (text @ text', r)))"

definition write_cue_file ::
  "timecode list \<Rightarrow> path \<Rightarrow> filesystem \<Rightarrow> filesystem \<times> (error + bool)" where
  \<comment> \<open>On an existing path \<^verbatim>\<open>open(cue_path, 'x')\<close> raises FileExistsError, an OSError:
      the handler finds that the path exists and unlinks it. A KeyError is no OSError;
      it leaves the function with the file as far as it was written.\<close>
  "write_cue_file timecodes cue_path fs =
     (if fs (pathname cue_path) \<noteq> None then (fs(pathname cue_path := None), Inr False)
      else
        case write_tracks (length timecodes) 1 timecodes of
          (text, r) \<Rightarrow>
            (fs(pathname cue_path \<mapsto>
                  ''FILE '' @ [QUOTE] @ stem cue_path @ ''.mp3'' @ [QUOTE] @ '' MP3'' @ [NL] @ text),
             case r of Some e \<Rightarrow> Inl e | None \<Rightarrow> Inr True))"

fun universal_newlines :: "string \<Rightarrow> string" where
  \<comment> \<open>reading in text mode turns \<^verbatim>\<open>\r\n\<close> and \<^verbatim>\<open>\r\<close> into \<^verbatim>\<open>\n\<close>\<close>
  "universal_newlines [] = []"
| "universal_newlines [c] = [if c = CR then NL else c]"
| "universal_newlines (c # d # cs) =
     (if c = CR \<and> d = NL then NL # universal_newlines cs
      else if c = CR then NL # universal_newlines (d # cs)
      else c # universal_newlines (d # cs))"

definition read_content :: "string \<Rightarrow> string list" where
  \<comment> \<open>\<^verbatim>\<open>[l.strip('\n') for l in fp.readlines()]\<close>: a line of \<^verbatim>\<open>readlines\<close> has its
      only line feed at its end\<close>
  "read_content text =
     (let ps = split_on NL (universal_newlines text) in if last ps = [] then butlast ps else ps)"

fun after_first :: "string \<Rightarrow> string \<Rightarrow> string option" where
  \<comment> \<open>what follows the leftmost occurrence of \<open>pat\<close> in the text\<close>
  "after_first pat [] = (if pat = [] then Some [] else None)"
| "after_first pat (c # cs) =
     (if prefix pat (c # cs) then Some (drop (length pat) (c # cs)) else after_first pat cs)"

definition re_title :: "string \<Rightarrow> string option" where
  \<comment> \<open>group 1 of \<^verbatim>\<open>re.search(r'TITLE\t"(.*)"', line)\<close>: from the leftmost
      \<^verbatim>\<open>TITLE\t"\<close> to the last quote after it. A line holds no line feed, so the dot
      matches each of its characters.\<close>
  "re_title line =
     (case after_first (''TITLE'' @ [TAB, QUOTE]) line of
        None \<Rightarrow> None
      | Some r \<Rightarrow>
          if QUOTE \<in> set r then Some (rev (tl (dropWhile (\<lambda>c. c \<noteq> QUOTE) (rev r)))) else None)"

definition re_start :: "string \<Rightarrow> string option" where
  \<comment> \<open>group 1 of \<^verbatim>\<open>re.search(r'START\t(.+)', line)\<close>\<close>
  "re_start line =
     (case after_first (''START'' @ [TAB]) line of
        None \<Rightarrow> None
      | Some r \<Rightarrow> if r \<noteq> [] then Some r else None)"

definition re_end :: "string \<Rightarrow> string option" where
  \<comment> \<open>group 1 of \<^verbatim>\<open>re.search(r'END\t+(.+)', line)\<close>: the greedy \<^verbatim>\<open>\t+\<close> takes
      every tab and gives one back when nothing else is left for the group\<close>
  "re_end line =
     (case after_first (''END'' @ [TAB]) line of
        None \<Rightarrow> None
      | Some r \<Rightarrow>
          if dropWhile (\<lambda>c. c = TAB) r \<noteq> [] then Some (dropWhile (\<lambda>c. c = TAB) r)
          else if r \<noteq> [] then Some [TAB]
          else None)"

definition empty_dict :: timecode where
  "empty_dict = \<lparr>start = None, chapter_type = None, end_t = None\<rparr>"

definition read_fields :: "string \<Rightarrow> nat \<Rightarrow> nat \<Rightarrow> timecode \<Rightarrow> error + timecode" where
  \<comment> \<open>the body of the \<^verbatim>\<open>try\<close> for line \<open>i\<close> of \<^verbatim>\<open>content[1:]\<close>, \<open>n\<close> the length of
      \<open>content\<close>. Where \<^verbatim>\<open>re.search\<close> returns \<^verbatim>\<open>None\<close>, subscripting it raises
      TypeError, which \<^verbatim>\<open>except (ValueError, IndexError)\<close> does not catch.\<close>
  "read_fields line i n time_dict =
     (case (if str_in ''TITLE'' line then
              (case re_title line of
                 None \<Rightarrow> Inl TypeError
               | Some g \<Rightarrow> Inr (time_dict\<lparr>chapter_type := Some g\<rparr>))
            else Inr time_dict) of
        Inl e \<Rightarrow> Inl e
      | Inr d1 \<Rightarrow>
          (case (if str_in ''START'' line then
                   (case re_start line of
                      None \<Rightarrow> Inl TypeError
                    | Some g \<Rightarrow> Inr (d1\<lparr>start := Some g\<rparr>))
                 else Inr d1) of
             Inl e \<Rightarrow> Inl e
           | Inr d2 \<Rightarrow>
               if str_in ''END'' line \<and> int i \<noteq> int n - 1 then
                 (case re_end line of
                    None \<Rightarrow> Inl TypeError
                  | Some g \<Rightarrow> Inr (d2\<lparr>end_t := Some g\<rparr>))
               else Inr d2))"

text \<open>
  The list \<open>timecodes\<close> can hold the dict \<open>time_dict\<close> itself: the \<^verbatim>\<open>elif\<close> branch
  appends it and keeps filling it. The state of the loop is the entries that no longer
  change, the number of times the current \<open>time_dict\<close> stands at the end of the list,
  and \<open>time_dict\<close>.
\<close>

fun read_loop ::
  "string list \<Rightarrow> nat \<Rightarrow> string list \<Rightarrow> timecode list \<times> nat \<times> timecode
     \<Rightarrow> error + timecode list \<times> nat \<times> timecode" where
  "read_loop content i [] st = Inr st"
| "read_loop content i (line # rest) (settled, k, time_dict) =
     (case read_fields line i (length content) time_dict of
        Inl e \<Rightarrow> Inl e
      | Inr d \<Rightarrow>
          if str_in ''TRACK'' (content ! (i + 1)) \<and> d \<noteq> empty_dict
          then read_loop content (i + 1) rest (settled @ replicate (k + 1) d, 0, empty_dict)
          else if line = last content \<and> d \<noteq> empty_dict
          then read_loop content (i + 1) rest (settled, k + 1, d)
          else read_loop content (i + 1) rest (settled, k, d))"

definition read_cue_file :: "path \<Rightarrow> filesystem \<Rightarrow> error + timecode list option" where
  \<comment> \<open>\<open>Inr None\<close> is the return value \<^verbatim>\<open>None\<close>\<close>
  "read_cue_file cue_path fs =
     (case fs (pathname cue_path) of
        None \<Rightarrow> Inl FileNotFoundError
      | Some text \<Rightarrow>
          (let content = read_content text in
           case read_loop content 0 (tl content) ([], 0, empty_dict) of
             Inl e \<Rightarrow> Inl e
           | Inr (settled, k, time_dict) \<Rightarrow>
               if settled @ replicate k time_dict \<noteq> [] then Inr (Some (settled @ replicate k time_dict))
               else Inr None))"

section \<open>Properties of the boundary decrementer\<close>

text \<open>
  C2. The claim is that every field of the decremented timestamp keeps its width, as in
  \<^verbatim>\<open>"00:05:10.000" -> "00:05:09.000"\<close>. The code renders the seconds of that input
  with one digit: the branch for a seconds field without leading zero applies
  \<^verbatim>\<open>str(int(last) - 1)\<close> and does not pad.
\<close>

theorem convert_time_drops_width:
  "convert_time ''00:05:10.000'' = Inr ''00:05:9.000''"
  by code_simp

text \<open>
  C3. The claim is that the all-zero timestamp is rejected. The code takes the hours
  branch, computes \<^verbatim>\<open>int('00') - 1 = -1\<close> and returns a text that is no timestamp.
\<close>

theorem convert_time_zero_returns:
  "convert_time ''00:00:00.000'' = Inr ''0-1:59:59.000''"
  by code_simp

section \<open>Properties of the sidecar file\<close>

text \<open>
  C1. The claim is that reading back what \<open>write_cue_file\<close> wrote gives a list of the
  same length and order for every list the detector produces. The reader appends
  \<open>time_dict\<close> at every line that equals the last line of the file
  (\<^verbatim>\<open>elif line == content[-1]\<close>), not only at the last line. A transcript with the
  same timestamp at two recognised positions yields three boundaries whose second and
  third start are equal; the file written for them is read back as four entries.
\<close>

theorem round_trip_duplicate_start:
  "parse_timecodes [''chapter and verse''] [''prologue'', ''preface'', ''chapter'', ''epilogue'']
     [''00:00:01,000 --> 00:00:03,000'', ''chapter one'',
      ''00:00:05,000 --> 00:00:06,000'', ''chapter two'',
      ''00:00:05,000 --> 00:00:07,000'', ''chapter three'']
   = Inr [\<lparr>start = Some ''00:00:00'', chapter_type = Some ''Chapter 01'',
            end_t = Some ''00:00:04.000''\<rparr>,
          \<lparr>start = Some ''00:00:05.000'', chapter_type = Some ''Chapter 02'',
            end_t = Some ''00:00:04.000''\<rparr>,
          \<lparr>start = Some ''00:00:05.000'', chapter_type = Some ''Chapter 03'',
            end_t = None\<rparr>]
   \<and> read_cue_file \<lparr>pathname = ''book.cue'', stem = ''book''\<rparr>
        (fst (write_cue_file
          [\<lparr>start = Some ''00:00:00'', chapter_type = Some ''Chapter 01'',
             end_t = Some ''00:00:04.000''\<rparr>,
           \<lparr>start = Some ''00:00:05.000'', chapter_type = Some ''Chapter 02'',
             end_t = Some ''00:00:04.000''\<rparr>,
           \<lparr>start = Some ''00:00:05.000'', chapter_type = Some ''Chapter 03'',
             end_t = None\<rparr>]
          \<lparr>pathname = ''book.cue'', stem = ''book''\<rparr> Map.empty))
     = Inr (Some
         [\<lparr>start = Some ''00:00:00'', chapter_type = Some ''Chapter 01'',
            end_t = Some ''00:00:04.000''\<rparr>,
          \<lparr>start = Some ''00:00:05.000'', chapter_type = Some ''Chapter 02'',
            end_t = Some ''00:00:04.000''\<rparr>,
          \<lparr>start = Some ''00:00:05.000'', chapter_type = Some ''Chapter 02'',
            end_t = Some ''00:00:04.000''\<rparr>,
          \<lparr>start = Some ''00:00:05.000'', chapter_type = Some ''Chapter 03'',
            end_t = None\<rparr>])"
  by code_simp

text \<open>
  C5. The claim is that \<open>write_cue_file\<close>, called with a path that exists, returns the
  failure flag and leaves the file as it was. The code returns \<^verbatim>\<open>False\<close>, and
  its handler for the failed exclusive creation removes the file that was there.
\<close>

theorem write_cue_file_removes_existing:
  "fst (write_cue_file
          [\<lparr>start = Some ''00:00:00'', chapter_type = Some ''Chapter 01'', end_t = None\<rparr>]
          \<lparr>pathname = ''book.cue'', stem = ''book''\<rparr>
          [''book.cue'' \<mapsto> ''FILE x'']) ''book.cue'' = None
   \<and> snd (write_cue_file
          [\<lparr>start = Some ''00:00:00'', chapter_type = Some ''Chapter 01'', end_t = None\<rparr>]
          \<lparr>pathname = ''book.cue'', stem = ''book''\<rparr>
          [''book.cue'' \<mapsto> ''FILE x'']) = Inr False"
  by (simp add: write_cue_file_def)

text \<open>
  C9. The claim is that a line that holds \<^verbatim>\<open>TITLE\<close>, \<^verbatim>\<open>START\<close> or \<^verbatim>\<open>END\<close> without
  the shape of its field makes \<open>read_cue_file\<close> return its failure value, never an
  unhandled exception. For a \<^verbatim>\<open>TITLE\<close> line without tab and quotes the search
  returns \<^verbatim>\<open>None\<close>, subscripting it raises TypeError, and the handler is for
  ValueError and IndexError only: the function ends with the exception.
\<close>

theorem read_cue_file_type_error:
  "read_cue_file \<lparr>pathname = ''book.cue'', stem = ''book''\<rparr>
     [''book.cue'' \<mapsto>
        ''FILE x'' @ [NL] @ ''TRACK 1 AUDIO'' @ [NL] @ ''  TITLE Chapter 01'' @ [NL]]
   = Inl TypeError"
  by code_simp

section \<open>Properties of the detector\<close>

text \<open>
  C4. The claim is that a lookahead line that holds only the epilogue marker gives a
  boundary labelled \<^verbatim>\<open>Epilogue\<close>. The branch commented \<^verbatim>\<open># Epilogue\<close> sets
  \<^verbatim>\<open>chapter_type = markers[2].title()\<close>, the chapter marker, so the label is
  \<^verbatim>\<open>Chapter\<close>.
\<close>

theorem epilogue_labelled_chapter:
  "parse_timecodes [''chapter and verse''] [''prologue'', ''preface'', ''chapter'', ''epilogue'']
     [''00:10:00,000 --> 00:10:05,000'', ''the epilogue'']
   = Inr [\<lparr>start = Some ''00:00:00'', chapter_type = Some ''Chapter'', end_t = None\<rparr>]"
  by code_simp

section \<open>Digits, fields and splitting\<close>

lemma is_digit_cases:
  "is_digit c \<longleftrightarrow> c = CHR ''0'' \<or> c = CHR ''1'' \<or> c = CHR ''2'' \<or> c = CHR ''3'' \<or> c = CHR ''4''
     \<or> c = CHR ''5'' \<or> c = CHR ''6'' \<or> c = CHR ''7'' \<or> c = CHR ''8'' \<or> c = CHR ''9''"
  by (auto simp: is_digit_def)

lemma digit_char_of: "is_digit c \<Longrightarrow> digit_char (digit_of c) = c"
  by (auto simp: is_digit_cases digit_char_def digit_of_def)

lemma digit_of_less: "is_digit c \<Longrightarrow> digit_of c < 10"
  by (auto simp: is_digit_cases digit_of_def)

lemma digit_not_sep:
  "is_digit c \<Longrightarrow> c \<noteq> CHR '':'' \<and> c \<noteq> CHR ''.'' \<and> c \<noteq> CHR '','' \<and> c \<noteq> CHR ''-''
     \<and> c \<noteq> CHR ''+'' \<and> c \<noteq> CHR ''_'' \<and> \<not> is_space c \<and> \<not> is_int_space c"
  by (auto simp: is_digit_cases is_space_def is_int_space_def)

lemma digits_value2: "digits_value [a, b] = 10 * digit_of a + digit_of b"
  by (simp add: digits_value_def)

lemma digits_value3: "digits_value [a, b, c] = 100 * digit_of a + 10 * digit_of b + digit_of c"
  by (simp add: digits_value_def)

lemma str_nat_1: "n < 10 \<Longrightarrow> str_nat n = [digit_char n]"
  by (simp add: str_nat.simps)

lemma str_nat_2: "10 \<le> n \<Longrightarrow> n < 100 \<Longrightarrow> str_nat n = [digit_char (n div 10), digit_char (n mod 10)]"
  by (subst str_nat.simps) (simp add: str_nat_1)

lemma str_nat_3:
  "100 \<le> n \<Longrightarrow> n < 1000 \<Longrightarrow>
     str_nat n = [digit_char (n div 100), digit_char (n div 10 mod 10), digit_char (n mod 10)]"
  by (subst str_nat.simps) (simp add: str_nat_2 div_mult2_eq[symmetric])

lemma digit_char_0: "digit_char 0 = CHR ''0''"
  by (simp add: digit_char_def)

lemma zero_pad_2:
  "n < 100 \<Longrightarrow> zero_pad 2 (int n) = [digit_char (n div 10), digit_char (n mod 10)]"
  by (cases "n < 10") (simp_all add: zero_pad_def str_nat_1 str_nat_2 digit_char_0)

lemma zero_pad_3:
  "n < 1000 \<Longrightarrow> zero_pad 3 (int n) =
     [digit_char (n div 100), digit_char (n div 10 mod 10), digit_char (n mod 10)]"
proof -
  assume n: "n < 1000"
  consider "n < 10" | "10 \<le> n" "n < 100" | "100 \<le> n" by linarith
  then show ?thesis
  proof cases
    case 1 then show ?thesis by (simp add: zero_pad_def str_nat_1 digit_char_0 numeral_3_eq_3)
  next
    case 2 then show ?thesis by (simp add: zero_pad_def str_nat_2 digit_char_0)
  next
    case 3 then show ?thesis using n by (simp add: zero_pad_def str_nat_3)
  qed
qed

lemma timedelta_of_parts:
  fixes s F :: int
  assumes "0 \<le> s" "s < 86400" "0 \<le> F" "F < 1000000"
  shows "timedelta_of_us (s * 1000000 + F) = \<lparr>days = 0, seconds = s, microseconds = F\<rparr>"
proof -
  have u: "0 \<le> s * 1000000 + F" "s * 1000000 + F < 86400000000" using assms by auto
  have d: "(s * 1000000 + F) div 86400000000 = 0" using u by simp
  have m: "(s * 1000000 + F) mod 86400000000 = s * 1000000 + F" using u by simp
  have q: "(s * 1000000 + F) div 1000000 = s" using assms by simp
  have r: "(s * 1000000 + F) mod 1000000 = F" using assms by simp
  show ?thesis unfolding timedelta_of_us_def d m q r by simp
qed

lemma total_us_parts: "total_us \<lparr>days = 0, seconds = s, microseconds = F\<rparr> = s * 1000000 + F"
  by (simp add: total_us_def)

lemma hms_split:
  fixes H M S :: int
  assumes "0 \<le> M" "M < 60" "0 \<le> S" "S < 60"
  shows "((H * 60 + M) * 60 + S) div 3600 = H"
    and "((H * 60 + M) * 60 + S) mod 3600 div 60 = M"
    and "((H * 60 + M) * 60 + S) mod 3600 mod 60 = S"
proof -
  have e: "(H * 60 + M) * 60 + S = (M * 60 + S) + H * 3600" by simp
  have r: "0 \<le> M * 60 + S" "M * 60 + S < 3600" using assms by auto
  have m: "((H * 60 + M) * 60 + S) mod 3600 = M * 60 + S"
    unfolding e using r by simp
  show "((H * 60 + M) * 60 + S) div 3600 = H"
    unfolding e using r by simp
  show "((H * 60 + M) * 60 + S) mod 3600 div 60 = M"
    unfolding m using assms by simp
  show "((H * 60 + M) * 60 + S) mod 3600 mod 60 = S"
    unfolding m using assms by simp
qed


lemma split_colon_hms:
  assumes "list_all is_digit [h1, h2, m1, m2, s1, s2]" "list_all is_digit f"
  shows "split_on CHR '':'' ([h1, h2, CHR '':'', m1, m2, CHR '':'', s1, s2, CHR ''.''] @ f)
         = [[h1, h2], [m1, m2], [s1, s2, CHR ''.''] @ f]"
proof -
  have f: "split_on CHR '':'' f = [f]" using assms(2)
    by (induction f) (auto dest: digit_not_sep)
  show ?thesis using assms(1) f by (auto dest: digit_not_sep)
qed

lemma split_dot_sf:
  assumes "is_digit s1" "is_digit s2" "list_all is_digit f"
  shows "split_on CHR ''.'' ([s1, s2, CHR ''.''] @ f) = [[s1, s2], f]"
proof -
  have f: "split_on CHR ''.'' f = [f]" using assms(3)
    by (induction f) (auto dest: digit_not_sep)
  show ?thesis using assms(1,2) f by (auto dest: digit_not_sep)
qed

lemma two_digits:
  assumes "is_digit a" "is_digit b"
  shows "digit_char (digits_value [a, b] div 10) = a" "digit_char (digits_value [a, b] mod 10) = b"
    "digits_value [a, b] < 100"
  using assms digit_of_less[of a] digit_of_less[of b]
  by (simp_all add: digits_value2 digit_char_of)

lemma mod_digit: "z < 10 \<Longrightarrow> (z + q * 10) mod 10 = (z::nat)"
  by simp

lemma three_digits:
  assumes "is_digit a" "is_digit b" "is_digit c"
  shows "digit_char (digits_value [a, b, c] div 100) = a"
    "digit_char (digits_value [a, b, c] div 10 mod 10) = b"
    "digit_char (digits_value [a, b, c] mod 10) = c"
    "digits_value [a, b, c] < 1000"
proof -
  have l: "digit_of a < 10" "digit_of b < 10" "digit_of c < 10"
    using assms by (simp_all add: digit_of_less)
  have e1: "digits_value [a, b, c] div 100 = digit_of a" using l by (simp add: digits_value3)
  have r: "100 * digit_of a + 10 * digit_of b + digit_of c
           = digit_of c + (10 * digit_of a + digit_of b) * 10" by simp
  have d: "digits_value [a, b, c] div 10 = 10 * digit_of a + digit_of b"
    unfolding digits_value3 r using l by simp
  have e2: "digits_value [a, b, c] div 10 mod 10 = digit_of b"
    unfolding d using l by simp
  have e3: "digits_value [a, b, c] mod 10 = digit_of c"
    unfolding digits_value3 r by (rule mod_digit) (rule l(3))
  show "digit_char (digits_value [a, b, c] div 100) = a" unfolding e1 using assms by (simp add: digit_char_of)
  show "digit_char (digits_value [a, b, c] div 10 mod 10) = b" unfolding e2 using assms by (simp add: digit_char_of)
  show "digit_char (digits_value [a, b, c] mod 10) = c" unfolding e3 using assms by (simp add: digit_char_of)
  show "digits_value [a, b, c] < 1000" using l by (simp add: digits_value3)
qed

lemma split_on_no_sep: "sep \<notin> set p \<Longrightarrow> split_on sep p = [p]"
  by (induction p) auto

lemma split_on_append: "sep \<notin> set p \<Longrightarrow> split_on sep (p @ sep # r) = p # split_on sep r"
  by (induction p) auto

lemma digits_no_sep:
  "list_all is_digit p \<Longrightarrow> CHR '':'' \<notin> set p \<and> CHR ''.'' \<notin> set p \<and> CHR '','' \<notin> set p"
  by (induction p) (auto dest: digit_not_sep)

lemma less_10_cases:
  "d < 10 \<Longrightarrow> d = 0 \<or> d = 1 \<or> d = 2 \<or> d = 3 \<or> d = 4 \<or> d = 5 \<or> d = 6 \<or> d = 7 \<or> d = 8 \<or> d = (9::nat)"
  by arith

lemma digit_char_digit: "d < 10 \<Longrightarrow> is_digit (digit_char d) \<and> digit_of (digit_char d) = d"
  by (drule less_10_cases) (auto simp: digit_char_def is_digit_def digit_of_def)

lemma digits_value1: "digits_value [a] = digit_of a"
  by (simp add: digits_value_def)

lemma str_nat_small:
  assumes "k < 100"
  shows "list_all is_digit (str_nat k) \<and> (length (str_nat k) = 1 \<or> length (str_nat k) = 2)
         \<and> digits_value (str_nat k) = k"
proof (cases "k < 10")
  case True
  then show ?thesis by (simp add: str_nat_1 digit_char_digit digits_value1)
next
  case False
  then have k: "10 \<le> k" by simp
  have "k div 10 < 10" "k mod 10 < 10" using assms by auto
  then show ?thesis using k assms
    by (simp add: str_nat_2 digit_char_digit digits_value2)
qed

lemma py_int_digits2:
  assumes "is_digit a" "is_digit b"
  shows "py_int [a, b] = Inr (int (digits_value [a, b]))"
proof -
  have sp: "strip_space [a, b] = [a, b]"
    using assms by (simp add: strip_space_def digit_not_sep)
  show ?thesis
    using assms by (simp add: py_int_def sp Let_def digit_not_sep)
qed

lemma digit_zero: "is_digit a \<Longrightarrow> digit_of a = 0 \<Longrightarrow> a = CHR ''0''"
  by (auto simp: is_digit_cases digit_of_def)

lemma digit_of_zero: "digit_of CHR ''0'' = 0"
  by (simp add: digit_of_def)

lemma is_digit_0: "is_digit CHR ''0''"
  by (simp add: is_digit_def)

lemma dec_field:
  assumes a: "is_digit a" and b: "is_digit b" and n: "1 \<le> digits_value [a, b]"
  shows "\<exists>x. (if re_0d [a, b] then dec_padded [a, b] else dec_str [a, b]) = Inr x
           \<and> list_all is_digit x \<and> (length x = 1 \<or> length x = 2)
           \<and> digits_value x = digits_value [a, b] - 1"
proof -
  let ?n = "digits_value [a, b]"
  have lt: "?n < 100" using a b by (simp add: two_digits(3))
  have ps: "py_str (int ?n - 1) = str_nat (?n - 1)"
    using n by (simp add: py_str_def nat_diff_distrib')
  have ds: "dec_str [a, b] = Inr (str_nat (?n - 1))"
    using a b ps by (simp add: dec_str_def py_int_digits2)
  show ?thesis
  proof (cases "re_0d [a, b]")
    case True
    then have a0: "a = CHR ''0''" by (simp add: re_0d_def)
    then have "?n = digit_of b" by (simp add: digits_value2 digit_of_zero)
    then have small: "?n - 1 < 10" using digit_of_less[OF b] by simp
    have "dec_padded [a, b] = Inr [CHR ''0'', digit_char (?n - 1)]"
      using small by (simp add: dec_padded_def ds str_nat_1)
    moreover have "digits_value [CHR ''0'', digit_char (?n - 1)] = ?n - 1"
      using small by (simp add: digits_value2 digit_of_zero digit_char_digit)
    moreover have "list_all is_digit [CHR ''0'', digit_char (?n - 1)]"
      using small by (simp add: digit_char_digit is_digit_0)
    ultimately show ?thesis using True by simp
  next
    case False
    have "?n - 1 < 100" using lt by simp
    from str_nat_small[OF this] show ?thesis using False ds by simp
  qed
qed

lemma digit_field2: "is_digit a \<Longrightarrow> is_digit b \<Longrightarrow> digit_field [a, b] (digits_value [a, b])"
  by (simp add: digit_field_def)

lemma digit_field_59: "digit_field ''59'' 59"
  by (simp add: digit_field_def is_digit_def digits_value_def digit_of_def)

lemma parse_fields:
  assumes p0: "digit_field p0 H" and p1: "digit_field p1 M" and p2: "digit_field p2 S"
    and b: "H \<le> 23" "M \<le> 59" "S \<le> 59"
    and f: "list_all is_digit f" "f \<noteq> []" "length f \<le> 6"
  shows "parse_timestamp (p0 @ '':'' @ p1 @ '':'' @ p2 @ ''.'' @ f)
         = Inr (timedelta_of_us (((int H * 60 + int M) * 60 + int S) * 1000000
                                  + int (digits_value f * 10 ^ (6 - length f))))"
proof -
  have n0: "CHR '':'' \<notin> set p0" and n1: "CHR '':'' \<notin> set p1"
    and n2: "CHR '':'' \<notin> set (p2 @ CHR ''.'' # f)"
    and d2: "CHR ''.'' \<notin> set p2" and df: "CHR ''.'' \<notin> set f"
    using p0 p1 p2 f(1) by (auto simp: digit_field_def dest: digits_no_sep)
  have sp: "split_on CHR '':'' (p0 @ CHR '':'' # p1 @ CHR '':'' # p2 @ CHR ''.'' # f)
            = [p0, p1, p2 @ CHR ''.'' # f]"
    by (simp only: split_on_append[OF n0] split_on_append[OF n1] split_on_no_sep[OF n2])
  have sd: "split_on CHR ''.'' (p2 @ CHR ''.'' # f) = [p2, f]"
    by (simp only: split_on_append[OF d2] split_on_no_sep[OF df])
  have fh: "field2 23 p0 = Some H" and fm: "field2 59 p1 = Some M" and fs: "field2 61 p2 = Some S"
    using p0 p1 p2 b by (auto simp: field2_def digit_field_def)
  have st: "strptime (p0 @ CHR '':'' # p1 @ CHR '':'' # p2 @ CHR ''.'' # f)
            = Some (H, M, S, digits_value f * 10 ^ (6 - length f))"
    using f b by (simp add: strptime_def sp sd fh fm fs Suc_le_eq del: split_on.simps)
  show ?thesis
    unfolding parse_timestamp_def by (simp add: st del: split_on.simps)
qed

lemma convert_parts_clock:
  assumes d: "list_all is_digit [h1, h2, m1, m2, s1, s2]"
    and nz: "\<not> (digits_value [h1, h2] = 0 \<and> digits_value [m1, m2] = 0 \<and> digits_value [s1, s2] = 0)"
    and b: "digits_value [h1, h2] \<le> 23" "digits_value [m1, m2] \<le> 59" "digits_value [s1, s2] \<le> 59"
  shows "\<exists>p0 p1 p2 H' M' S'.
           convert_parts [[h1, h2], [m1, m2], [s1, s2, CHR ''.''] @ f] [s1, s2] = Inr [p0, p1, p2]
           \<and> digit_field p0 H' \<and> digit_field p1 M' \<and> digit_field p2 S'
           \<and> H' \<le> 23 \<and> M' \<le> 59 \<and> S' \<le> 59
           \<and> (H' * 60 + M') * 60 + S' + 1
               = (digits_value [h1, h2] * 60 + digits_value [m1, m2]) * 60 + digits_value [s1, s2]"
proof -
  let ?H = "digits_value [h1, h2]" and ?M = "digits_value [m1, m2]" and ?S = "digits_value [s1, s2]"
  have dg: "is_digit h1" "is_digit h2" "is_digit m1" "is_digit m2" "is_digit s1" "is_digit s2"
    using d by simp_all
  have zero: "\<And>a b. is_digit a \<Longrightarrow> is_digit b \<Longrightarrow> digits_value [a, b] = 0 \<longleftrightarrow> [a, b] = ''00''"
    by (auto simp: digits_value2 digit_of_zero dest: digit_zero)
  have r00: "re_0d ''00''" by (simp add: re_0d_def is_digit_0)
  consider (sec) "1 \<le> ?S" | (min) "?S = 0" "1 \<le> ?M" | (hour) "?S = 0" "?M = 0" "1 \<le> ?H"
    using nz by linarith
  then show ?thesis
  proof cases
    case sec
    from dec_field[OF dg(5,6) sec] obtain x where
      x: "(if re_0d [s1, s2] then dec_padded [s1, s2] else dec_str [s1, s2]) = Inr x"
      and xf: "digit_field x (?S - 1)" by (auto simp: digit_field_def)
    have ne: "[s1, s2] \<noteq> ''00''" using sec zero[OF dg(5,6)] by auto
    have "convert_parts [[h1, h2], [m1, m2], [s1, s2, CHR ''.''] @ f] [s1, s2]
          = Inr [[h1, h2], [m1, m2], x]"
      using x ne by (auto simp: convert_parts_def split: if_splits)
    moreover have "(?H * 60 + ?M) * 60 + (?S - 1) + 1 = (?H * 60 + ?M) * 60 + ?S"
      using sec by simp
    ultimately show ?thesis
      using xf b digit_field2[OF dg(1,2)] digit_field2[OF dg(3,4)]
      by (intro exI[of _ "[h1, h2]"] exI[of _ "[m1, m2]"] exI[of _ x]
                exI[of _ ?H] exI[of _ ?M] exI[of _ "?S - 1"]) simp
  next
    case min
    from dec_field[OF dg(3,4) min(2)] obtain x where
      x: "(if re_0d [m1, m2] then dec_padded [m1, m2] else dec_str [m1, m2]) = Inr x"
      and xf: "digit_field x (?M - 1)" by (auto simp: digit_field_def)
    have s0: "[s1, s2] = ''00''" using min(1) zero[OF dg(5,6)] by simp
    have ne: "[m1, m2] \<noteq> ''00''" using min(2) zero[OF dg(3,4)] by auto
    have "convert_parts [[h1, h2], [m1, m2], [s1, s2, CHR ''.''] @ f] [s1, s2]
          = Inr [[h1, h2], x, ''59'']"
      using x ne r00 unfolding s0 by (auto simp: convert_parts_def split: if_splits)
    moreover have "(?H * 60 + (?M - 1)) * 60 + 59 + 1 = (?H * 60 + ?M) * 60 + ?S"
      using min by (simp add: algebra_simps)
    ultimately show ?thesis
      using xf b digit_field2[OF dg(1,2)] digit_field_59
      by (intro exI[of _ "[h1, h2]"] exI[of _ x] exI[of _ "''59''"]
                exI[of _ ?H] exI[of _ "?M - 1"] exI[of _ 59]) simp
  next
    case hour
    from dec_field[OF dg(1,2) hour(3)] obtain x where
      x: "(if re_0d [h1, h2] then dec_padded [h1, h2] else dec_str [h1, h2]) = Inr x"
      and xf: "digit_field x (?H - 1)" by (auto simp: digit_field_def)
    have s0: "[s1, s2] = ''00''" using hour(1) zero[OF dg(5,6)] by simp
    have m0: "[m1, m2] = ''00''" using hour(2) zero[OF dg(3,4)] by simp
    have "convert_parts [[h1, h2], [m1, m2], [s1, s2, CHR ''.''] @ f] [s1, s2]
          = Inr [x, ''59'', ''59'']"
      using x r00 unfolding s0 m0 by (auto simp: convert_parts_def split: if_splits)
    moreover have "((?H - 1) * 60 + 59) * 60 + 59 + 1 = (?H * 60 + ?M) * 60 + ?S"
      using hour by (simp add: algebra_simps)
    ultimately show ?thesis
      using xf b digit_field_59
      by (intro exI[of _ x] exI[of _ "''59''"] exI[of _ "''59''"]
                exI[of _ "?H - 1"] exI[of _ 59] exI[of _ 59]) simp
  qed
qed

section \<open>Properties of the duration codec\<close>

lemma format_of_parts:
  fixes H M S F :: int
  assumes "0 \<le> H" "H < 24" "0 \<le> M" "M < 60" "0 \<le> S" "S < 60" "0 \<le> F" "F < 1000"
  shows "format_timestamp_from_float (((H * 60 + M) * 60 + S) * 1000000 + F * 1000)
         = Inr (zero_pad 2 H @ '':'' @ zero_pad 2 M @ '':'' @ zero_pad 2 S @ '','' @ zero_pad 3 F)"
proof -
  define s where "s = (H * 60 + M) * 60 + S"
  define f where "f = F * 1000"
  have sb: "0 \<le> s" "s < 86400" using assms by (auto simp: s_def)
  have fb: "0 \<le> f" "f < 1000000" using assms by (auto simp: f_def)
  have td: "timedelta_of_us (s * 1000000 + f) = \<lparr>days = 0, seconds = s, microseconds = f\<rparr>"
    using sb fb by (rule timedelta_of_parts)
  have hh: "s div 3600 = H" and mm: "s mod 3600 div 60 = M" and ss: "s mod 3600 mod 60 = S"
    unfolding s_def using assms by (simp_all only: hms_split)
  have ms: "f div 1000 = F" by (simp add: f_def)
  show ?thesis
    unfolding s_def[symmetric] f_def[symmetric] format_timestamp_from_float_def td
    by (simp add: Let_def hh mm ss ms)
qed

lemma parse_hms:
  assumes d: "list_all is_digit [h1, h2, m1, m2, s1, s2, f1, f2, f3]"
    and H: "digits_value [h1, h2] \<le> 23" and M: "digits_value [m1, m2] \<le> 59"
    and S: "digits_value [s1, s2] \<le> 59"
  shows "parse_timestamp [h1, h2, CHR '':'', m1, m2, CHR '':'', s1, s2, CHR ''.'', f1, f2, f3]
         = Inr (timedelta_of_us
                 (((int (digits_value [h1, h2]) * 60 + int (digits_value [m1, m2])) * 60
                   + int (digits_value [s1, s2])) * 1000000
                  + int (digits_value [f1, f2, f3]) * 1000))"
proof -
  have sp: "split_on CHR '':'' [h1, h2, CHR '':'', m1, m2, CHR '':'', s1, s2, CHR ''.'', f1, f2, f3]
            = [[h1, h2], [m1, m2], [s1, s2, CHR ''.'', f1, f2, f3]]"
    using split_colon_hms[of h1 h2 m1 m2 s1 s2 "[f1, f2, f3]"] d by simp
  have sd: "split_on CHR ''.'' [s1, s2, CHR ''.'', f1, f2, f3] = [[s1, s2], [f1, f2, f3]]"
    using split_dot_sf[of s1 s2 "[f1, f2, f3]"] d by simp
  have fh: "field2 23 [h1, h2] = Some (digits_value [h1, h2])"
    and fm: "field2 59 [m1, m2] = Some (digits_value [m1, m2])"
    and fs: "field2 61 [s1, s2] = Some (digits_value [s1, s2])"
    using d H M S by (simp_all add: field2_def)
  have st: "strptime [h1, h2, CHR '':'', m1, m2, CHR '':'', s1, s2, CHR ''.'', f1, f2, f3]
            = Some (digits_value [h1, h2], digits_value [m1, m2], digits_value [s1, s2],
                    digits_value [f1, f2, f3] * 1000)"
    using d S by (simp add: strptime_def sp sd fh fm fs del: split_on.simps)
  show ?thesis
    unfolding parse_timestamp_def by (simp add: st del: split_on.simps)
qed

lemma total_us_timedelta_of_us: "total_us (timedelta_of_us u) = u"
proof -
  define r where "r = u mod 86400000000"
  have m: "u mod 1000000 = r mod 1000000"
    unfolding r_def by (simp add: mod_mod_cancel)
  have "total_us (timedelta_of_us u)
        = (u div 86400000000) * 86400000000 + (r div 1000000 * 1000000 + r mod 1000000)"
    by (simp add: total_us_def timedelta_of_us_def r_def[symmetric] m algebra_simps)
  also have "\<dots> = (u div 86400000000) * 86400000000 + r" by simp
  also have "\<dots> = u" unfolding r_def by simp
  finally show ?thesis .
qed

lemma round_trip_within_day:
  assumes "valid_hms t" and "hours_of t \<le> 23"
  shows "\<exists>td. parse_timestamp t = Inr td
           \<and> format_timestamp_from_float (total_us td) = Inr (replace_char CHR ''.'' CHR '','' t)"
proof -
  from assms(1) obtain h1 h2 m1 m2 s1 s2 f1 f2 f3 where
    t: "t = [h1, h2, CHR '':'', m1, m2, CHR '':'', s1, s2, CHR ''.'', f1, f2, f3]"
    and d: "list_all is_digit [h1, h2, m1, m2, s1, s2, f1, f2, f3]"
    and M: "digits_value [m1, m2] \<le> 59" and S: "digits_value [s1, s2] \<le> 59"
    by (auto simp: valid_hms_def split: list.splits)
  have H: "digits_value [h1, h2] \<le> 23" using assms(2) by (simp add: hours_of_def t)
  let ?u = "((int (digits_value [h1, h2]) * 60 + int (digits_value [m1, m2])) * 60
             + int (digits_value [s1, s2])) * 1000000 + int (digits_value [f1, f2, f3]) * 1000"
  have p: "parse_timestamp t = Inr (timedelta_of_us ?u)"
    unfolding t using d H M S by (rule parse_hms)
  have F: "digits_value [f1, f2, f3] < 1000" using d by (simp add: three_digits(4))
  have "format_timestamp_from_float ?u
        = Inr (zero_pad 2 (int (digits_value [h1, h2])) @ '':''
               @ zero_pad 2 (int (digits_value [m1, m2])) @ '':''
               @ zero_pad 2 (int (digits_value [s1, s2])) @ '',''
               @ zero_pad 3 (int (digits_value [f1, f2, f3])))"
    using H M S F by (intro format_of_parts) auto
  also have "\<dots> = Inr [h1, h2, CHR '':'', m1, m2, CHR '':'', s1, s2, CHR '','', f1, f2, f3]"
    using d H M S F by (simp add: zero_pad_2 zero_pad_3 two_digits three_digits)
  also have "\<dots> = Inr (replace_char CHR ''.'' CHR '','' t)"
    using d by (auto simp: t replace_char_def dest: digit_not_sep)
  finally have "format_timestamp_from_float (total_us (timedelta_of_us ?u))
                = Inr (replace_char CHR ''.'' CHR '','' t)"
    by (simp only: total_us_timedelta_of_us)
  with p show ?thesis by blast
qed

lemma parse_rejects_hours:
  assumes "valid_hms t" and "24 \<le> hours_of t"
  shows "parse_timestamp t = Inl ValueError"
proof -
  from assms(1) obtain h1 h2 m1 m2 s1 s2 f1 f2 f3 where
    t: "t = [h1, h2, CHR '':'', m1, m2, CHR '':'', s1, s2, CHR ''.'', f1, f2, f3]"
    and d: "list_all is_digit [h1, h2, m1, m2, s1, s2, f1, f2, f3]"
    by (auto simp: valid_hms_def split: list.splits)
  have H: "\<not> digits_value [h1, h2] \<le> 23" using assms(2) by (simp add: hours_of_def t)
  have sp: "split_on CHR '':'' [h1, h2, CHR '':'', m1, m2, CHR '':'', s1, s2, CHR ''.'', f1, f2, f3]
            = [[h1, h2], [m1, m2], [s1, s2, CHR ''.'', f1, f2, f3]]"
    using split_colon_hms[of h1 h2 m1 m2 s1 s2 "[f1, f2, f3]"] d by simp
  have sd: "split_on CHR ''.'' [s1, s2, CHR ''.'', f1, f2, f3] = [[s1, s2], [f1, f2, f3]]"
    using split_dot_sf[of s1 s2 "[f1, f2, f3]"] d by simp
  have fh: "field2 23 [h1, h2] = None" using H by (simp add: field2_def)
  have st: "strptime [h1, h2, CHR '':'', m1, m2, CHR '':'', s1, s2, CHR ''.'', f1, f2, f3] = None"
    by (simp add: strptime_def sp sd fh del: split_on.simps)
  show ?thesis
    unfolding t parse_timestamp_def by (simp add: st del: split_on.simps)
qed

text \<open>
  C6, as amended. The claim is that every valid text \<^verbatim>\<open>HH:MM:SS.mmm\<close>, also one with an
  hours field of 24 or more, is parsed and formatted back to itself. \<open>parse_timestamp\<close>
  reads the hours with \<^verbatim>\<open>%H\<close>, which accepts 0 to 23. What holds: every valid text
  whose hours are at most 23 is accepted by \<open>parse_timestamp\<close>, and formatting the
  duration it returns gives the text back with a comma for the dot, nothing rounded;
  every valid text whose hours are 24 or more is refused by \<open>parse_timestamp\<close> with
  ValueError. The duration is handed from the one function to the other exactly, as its
  number of microseconds.
\<close>

theorem codec_round_trip:
  assumes "valid_hms t"
  shows "(hours_of t \<le> 23 \<longrightarrow>
            (\<exists>td. parse_timestamp t = Inr td
               \<and> format_timestamp_from_float (total_us td)
                   = Inr (replace_char CHR ''.'' CHR '','' t)))
       \<and> (24 \<le> hours_of t \<longrightarrow> parse_timestamp t = Inl ValueError)"
  using assms round_trip_within_day parse_rejects_hours by blast

text \<open>
  The hypotheses of C6 hold at \<^verbatim>\<open>23:59:59.999\<close>, which comes back, and at
  \<^verbatim>\<open>24:00:00.000\<close>, which is refused.
\<close>

theorem codec_round_trip_witness:
  "valid_hms ''23:59:59.999'' \<and> hours_of ''23:59:59.999'' \<le> 23
   \<and> (\<exists>td. parse_timestamp ''23:59:59.999'' = Inr td
          \<and> format_timestamp_from_float (total_us td) = Inr ''23:59:59,999'')
   \<and> valid_hms ''24:00:00.000'' \<and> 24 \<le> hours_of ''24:00:00.000''
   \<and> parse_timestamp ''24:00:00.000'' = Inl ValueError"
proof -
  have v: "valid_hms ''23:59:59.999''" by code_simp
  have h: "hours_of ''23:59:59.999'' \<le> 23" by code_simp
  have r: "replace_char CHR ''.'' CHR '','' ''23:59:59.999'' = ''23:59:59,999''" by code_simp
  have v': "valid_hms ''24:00:00.000''" by code_simp
  have h': "24 \<le> hours_of ''24:00:00.000''" by code_simp
  show ?thesis
    using codec_round_trip[OF v] codec_round_trip[OF v'] v h v' h' unfolding r by blast
qed

text \<open>
  C6 as stated fails at \<^verbatim>\<open>24:00:00.000\<close>: the text is valid and \<open>parse_timestamp\<close>
  raises ValueError.
\<close>

theorem codec_rejects_hour_24:
  "valid_hms ''24:00:00.000'' \<and> parse_timestamp ''24:00:00.000'' = Inl ValueError"
  by code_simp

section \<open>What the decremented text denotes\<close>

lemma convert_time_clock:
  assumes "clock_text s" and "take 8 s \<noteq> ''00:00:00''"
  shows "\<exists>e td td'. convert_time s = Inr e \<and> parse_timestamp s = Inr td
           \<and> parse_timestamp e = Inr td' \<and> total_us td' = total_us td - 1000000"
proof -
  from assms(1) obtain h1 h2 m1 m2 s1 s2 f where
    s: "s = [h1, h2, CHR '':'', m1, m2, CHR '':'', s1, s2, CHR ''.''] @ f"
    and d: "list_all is_digit [h1, h2, m1, m2, s1, s2]"
    and f: "list_all is_digit f" "f \<noteq> []" "length f \<le> 6"
    and b: "digits_value [h1, h2] \<le> 23" "digits_value [m1, m2] \<le> 59"
           "digits_value [s1, s2] \<le> 59"
    by (auto simp: clock_text_def split: list.splits)
  let ?H = "digits_value [h1, h2]" and ?M = "digits_value [m1, m2]" and ?S = "digits_value [s1, s2]"
  let ?F = "int (digits_value f * 10 ^ (6 - length f))"
  have dg: "is_digit h1" "is_digit h2" "is_digit m1" "is_digit m2" "is_digit s1" "is_digit s2"
    using d by simp_all
  have nz: "\<not> (?H = 0 \<and> ?M = 0 \<and> ?S = 0)"
  proof
    assume z: "?H = 0 \<and> ?M = 0 \<and> ?S = 0"
    then have "[h1, h2] = ''00''" "[m1, m2] = ''00''" "[s1, s2] = ''00''"
      using dg by (auto simp: digits_value2 dest: digit_zero)
    then have "take 8 s = ''00:00:00''" by (simp add: s)
    with assms(2) show False by contradiction
  qed
  have ps: "parse_timestamp s
            = Inr (timedelta_of_us (((int ?H * 60 + int ?M) * 60 + int ?S) * 1000000 + ?F))"
    using parse_fields[OF digit_field2[OF dg(1,2)] digit_field2[OF dg(3,4)]
                          digit_field2[OF dg(5,6)] b f]
    by (simp add: s)
  from convert_parts_clock[OF d nz b, of f] obtain p0 p1 p2 H' M' S' where
    cp: "convert_parts [[h1, h2], [m1, m2], [s1, s2, CHR ''.''] @ f] [s1, s2] = Inr [p0, p1, p2]"
    and pf: "digit_field p0 H'" "digit_field p1 M'" "digit_field p2 S'"
    and b': "H' \<le> 23" "M' \<le> 59" "S' \<le> 59"
    and e: "(H' * 60 + M') * 60 + S' + 1 = (?H * 60 + ?M) * 60 + ?S"
    by blast
  have sp: "split_on CHR '':'' s = [[h1, h2], [m1, m2], [s1, s2, CHR ''.''] @ f]"
    unfolding s using d f(1) by (rule split_colon_hms)
  have sd: "split_on CHR ''.'' ([s1, s2, CHR ''.''] @ f) = [[s1, s2], f]"
    using dg(5,6) f(1) by (rule split_dot_sf)
  have ct: "convert_time s = Inr (p0 @ '':'' @ p1 @ '':'' @ p2 @ ''.'' @ f)"
    unfolding convert_time_def sp using sd cp by (simp del: split_on.simps)
  have pe: "parse_timestamp (p0 @ '':'' @ p1 @ '':'' @ p2 @ ''.'' @ f)
            = Inr (timedelta_of_us (((int H' * 60 + int M') * 60 + int S') * 1000000 + ?F))"
    using pf b' f by (rule parse_fields)
  have "int ((H' * 60 + M') * 60 + S' + 1) = int ((?H * 60 + ?M) * 60 + ?S)"
    using e by simp
  then have "((int H' * 60 + int M') * 60 + int S') * 1000000 + ?F
             = ((int ?H * 60 + int ?M) * 60 + int ?S) * 1000000 + ?F - 1000000"
    by simp
  then show ?thesis
    using ct ps pe by (simp add: total_us_timedelta_of_us)
qed

lemma zero_pad_2_field: "n < 100 \<Longrightarrow> digit_field (zero_pad 2 (int n)) n"
proof -
  assume n: "n < 100"
  then have "n div 10 < 10" "n mod 10 < 10" by auto
  then show ?thesis
    by (simp add: zero_pad_2[OF n] digit_field_def digit_char_digit digits_value2)
qed

lemma zero_pad_3_digits:
  assumes n: "n < 1000"
  shows "list_all is_digit (zero_pad 3 (int n)) \<and> length (zero_pad 3 (int n)) = 3
         \<and> digits_value (zero_pad 3 (int n)) = n"
proof -
  have l: "n div 100 < 10" "n div 10 mod 10 < 10" "n mod 10 < 10" using n by auto
  have "100 * (n div 100) + 10 * (n div 10 mod 10) + n mod 10 = n"
  proof -
    have h: "n div 100 = n div 10 div 10"
      using div_mult2_eq[of n 10 10] by simp
    have "n div 10 = 10 * (n div 100) + n div 10 mod 10"
      unfolding h using mult_div_mod_eq[of 10 "n div 10"] by simp
    then have "100 * (n div 100) + 10 * (n div 10 mod 10) = 10 * (n div 10)" by simp
    then show ?thesis by simp
  qed
  then show ?thesis using l
    by (simp add: zero_pad_3[OF n] digit_char_digit digits_value3)
qed

lemma format_in_day:
  assumes "0 \<le> d" "d < 86400000000"
  shows "format_timestamp_from_float d
         = Inr (zero_pad 2 (d div 1000000 div 3600) @ '':''
                @ zero_pad 2 (d div 1000000 mod 3600 div 60) @ '':''
                @ zero_pad 2 (d div 1000000 mod 3600 mod 60) @ '',''
                @ zero_pad 3 (d mod 1000000 div 1000))"
proof -
  have dd: "d div 86400000000 = 0" and dm: "d mod 86400000000 = d" using assms by simp_all
  show ?thesis
    by (simp add: format_timestamp_from_float_def timedelta_of_us_def dd dm Let_def)
qed

lemma replace_digits: "list_all is_digit p \<Longrightarrow> replace_char CHR '','' CHR ''.'' p = p"
  unfolding replace_char_def by (induction p) (auto dest: digit_not_sep)

lemma replace_char_append: "replace_char a b (p @ q) = replace_char a b p @ replace_char a b q"
  by (simp add: replace_char_def)

lemma format_parse_duration:
  assumes "0 \<le> d" "d < 86400000000"
  shows "\<exists>t. format_timestamp_from_float d = Inr t
           \<and> parse_timestamp (replace_char CHR '','' CHR ''.'' t)
               = Inr (timedelta_of_us (d div 1000 * 1000))"
proof -
  define s where "s = d div 1000000"
  define H where "H = nat (s div 3600)"
  define M where "M = nat (s mod 3600 div 60)"
  define S where "S = nat (s mod 3600 mod 60)"
  define F where "F = nat (d mod 1000000 div 1000)"
  have sb: "0 \<le> s" "s < 86400" using assms by (auto simp: s_def)
  have iH: "int H = s div 3600" and iM: "int M = s mod 3600 div 60"
    and iS: "int S = s mod 3600 mod 60" and iF: "int F = d mod 1000000 div 1000"
    using sb assms by (simp_all add: H_def M_def S_def F_def pos_imp_zdiv_nonneg_iff)
  have bH: "H < 24" using sb by (simp add: H_def)
  have bM: "M < 60" by (simp add: M_def)
  have bS: "S < 60" by (simp add: S_def)
  have bF: "F < 1000" by (simp add: F_def)
  let ?p0 = "zero_pad 2 (int H)" and ?p1 = "zero_pad 2 (int M)" and ?p2 = "zero_pad 2 (int S)"
  let ?p3 = "zero_pad 3 (int F)"
  have f0: "digit_field ?p0 H" and f1: "digit_field ?p1 M" and f2: "digit_field ?p2 S"
    using bH bM bS by (simp_all add: zero_pad_2_field)
  have f3: "list_all is_digit ?p3" "length ?p3 = 3" "digits_value ?p3 = F"
    using zero_pad_3_digits[OF bF] by simp_all
  have fmt: "format_timestamp_from_float d = Inr (?p0 @ '':'' @ ?p1 @ '':'' @ ?p2 @ '','' @ ?p3)"
    unfolding iH iM iS iF s_def using assms by (rule format_in_day)
  have rp: "replace_char CHR '','' CHR ''.'' (?p0 @ '':'' @ ?p1 @ '':'' @ ?p2 @ '','' @ ?p3)
            = ?p0 @ '':'' @ ?p1 @ '':'' @ ?p2 @ ''.'' @ ?p3"
  proof -
    have r: "replace_char CHR '','' CHR ''.'' ?p0 = ?p0" "replace_char CHR '','' CHR ''.'' ?p1 = ?p1"
      "replace_char CHR '','' CHR ''.'' ?p2 = ?p2" "replace_char CHR '','' CHR ''.'' ?p3 = ?p3"
      using f0 f1 f2 f3(1) by (simp_all add: replace_digits digit_field_def)
    have c: "replace_char CHR '','' CHR ''.'' '':'' = '':''"
      "replace_char CHR '','' CHR ''.'' '','' = ''.''"
      by (simp_all add: replace_char_def)
    show ?thesis by (simp only: replace_char_append r c)
  qed
  have "parse_timestamp (?p0 @ '':'' @ ?p1 @ '':'' @ ?p2 @ ''.'' @ ?p3)
        = Inr (timedelta_of_us (((int H * 60 + int M) * 60 + int S) * 1000000
                                 + int (digits_value ?p3 * 10 ^ (6 - length ?p3))))"
    using f0 f1 f2 _ _ _ f3(1)
  proof (rule parse_fields)
    show "H \<le> 23" "M \<le> 59" "S \<le> 59" using bH bM bS by simp_all
    show "?p3 \<noteq> []" "length ?p3 \<le> 6" using f3(2) by auto
  qed
  moreover have "((int H * 60 + int M) * 60 + int S) * 1000000
                   + int (digits_value ?p3 * 10 ^ (6 - length ?p3)) = d div 1000 * 1000"
  proof -
    have hs: "(int H * 60 + int M) * 60 + int S = s"
    proof -
      have "s = s div 3600 * 3600 + s mod 3600" by simp
      also have "s mod 3600 = s mod 3600 div 60 * 60 + s mod 3600 mod 60" by simp
      finally show ?thesis unfolding iH iM iS by simp
    qed
    have m: "d mod 1000 = d mod 1000000 mod 1000" by (simp add: mod_mod_cancel)
    have "d = s * 1000000 + d mod 1000000" unfolding s_def by simp
    also have "d mod 1000000 = int F * 1000 + d mod 1000" unfolding iF m by simp
    finally have dd: "d = (s * 1000 + int F) * 1000 + d mod 1000" by simp
    have "d div 1000 = s * 1000 + int F"
      by (rule int_div_pos_eq[where r = "d mod 1000"]) (use dd in simp_all)
    then show ?thesis using hs by (simp add: f3 algebra_simps)
  qed
  ultimately show ?thesis using fmt rp by simp
qed

section \<open>Invariants of the scan\<close>

lemma add_ends_fields:
  "add_ends tcs = Inr tcs' \<Longrightarrow>
     map start tcs' = map start tcs \<and> map chapter_type tcs' = map chapter_type tcs"
  by (induction tcs arbitrary: tcs' rule: add_ends.induct)
     (auto split: option.splits sum.splits)

lemma scan_step_cases:
  assumes "scan_step ex ms line nxt (acc, c) = Inr (acc', c')"
  shows "(acc' = acc \<and> c' = c \<and>
            (if recognised ex ms nxt then re_search_start line = None else True))
       \<or> (\<exists>g label. recognised ex ms nxt \<and> re_search_start line = Some g
             \<and> classify ms nxt c = Inr (label, c')
             \<and> acc' = acc @ [\<lparr>start = Some (if acc = [] then ''00:00:00''
                                                else replace_char CHR '','' CHR ''.'' g),
                                chapter_type = Some label, end_t = None\<rparr>])"
  using assms
  by (auto simp: scan_step_def split: if_splits option.splits sum.splits prod.splits)

lemma scan_starts:
  "scan ex ms srt (acc, c) = Inr (out, c') \<Longrightarrow>
     map start out =
       (if acc = [] then
          (case candidates ex ms srt of
             [] \<Rightarrow> []
           | _ # cs \<Rightarrow> Some ''00:00:00'' # map (\<lambda>(g, _). Some (replace_char CHR '','' CHR ''.'' g)) cs)
        else map start acc @ map (\<lambda>(g, _). Some (replace_char CHR '','' CHR ''.'' g)) (candidates ex ms srt))"
proof (induction ex ms srt "(acc, c)" arbitrary: acc c rule: scan.induct)
  case (1 ex ms)
  then show ?case by simp
next
  case (2 ex ms line)
  then show ?case by simp
next
  case (3 ex ms line nxt rest)
  from "3.prems" obtain acc1 c1 where
    step: "scan_step ex ms line nxt (acc, c) = Inr (acc1, c1)" and
    rest: "scan ex ms (nxt # rest) (acc1, c1) = Inr (out, c')"
    by (auto split: sum.splits)
  have ih: "map start out =
       (if acc1 = [] then
          (case candidates ex ms (nxt # rest) of
             [] \<Rightarrow> []
           | _ # cs \<Rightarrow> Some ''00:00:00'' # map (\<lambda>(g, _). Some (replace_char CHR '','' CHR ''.'' g)) cs)
        else map start acc1 @ map (\<lambda>(g, _). Some (replace_char CHR '','' CHR ''.'' g)) (candidates ex ms (nxt # rest)))"
    using "3.hyps"[OF step rest] .
  from scan_step_cases[OF step] show ?case
  proof
    assume "acc1 = acc \<and> c1 = c \<and> (if recognised ex ms nxt then re_search_start line = None else True)"
    with ih show ?thesis by (auto split: if_splits)
  next
    assume "\<exists>g label. recognised ex ms nxt \<and> re_search_start line = Some g
             \<and> classify ms nxt c = Inr (label, c1)
             \<and> acc1 = acc @ [\<lparr>start = Some (if acc = [] then ''00:00:00''
                                                else replace_char CHR '','' CHR ''.'' g),
                                chapter_type = Some label, end_t = None\<rparr>]"
    with ih show ?thesis by auto
  qed
qed




lemma not_prefix_nil: "\<not> prefix (t @ '' '') []"
  by simp



section \<open>The detector returns\<close>

text \<open>
  With both tables of the language present, \<open>parse_timecodes\<close> ends in no exception:
  the \<^verbatim>\<open>if/elif\<close> chain reads no marker beyond the one that was found, and every
  start the pattern extracts is a text \<open>convert_time\<close> accepts. It exits with status 8
  when there is no candidate and returns a list otherwise.
\<close>

lemma scan_step_discards:
  "recognised ex ms nxt \<Longrightarrow> re_search_start line = None \<Longrightarrow> scan_step ex ms line nxt st = Inr st"
  by (simp add: scan_step_def)

lemma classify_ok:
  assumes "recognised ex ms nxt"
  shows "\<exists>label c'. classify ms nxt c = Inr (label, c')"
proof -
  from assms obtain j where j: "j < length ms" "str_in (ms ! j) nxt"
    by (auto simp: recognised_def list_ex_iff in_set_conv_nth)
  consider "j = 0" | "j = 1" | "j = 2" | "3 \<le> j" by linarith
  then show ?thesis
    using j by cases (auto simp: classify_def marker_in_def split: sum.splits bool.splits)
qed

lemma dec_str_ok: "is_digit a \<Longrightarrow> is_digit b \<Longrightarrow> \<exists>x. dec_str [a, b] = Inr x"
  by (simp add: dec_str_def py_int_digits2)

lemma dec_padded_ok: "is_digit a \<Longrightarrow> is_digit b \<Longrightarrow> \<exists>x. dec_padded [a, b] = Inr x"
  by (simp add: dec_padded_def dec_str_def py_int_digits2)

lemma convert_parts_ok:
  assumes "list_all is_digit [h1, h2, m1, m2, s1, s2]"
  shows "\<exists>ps. convert_parts [[h1, h2], [m1, m2], r] [s1, s2] = Inr ps"
proof -
  from assms obtain xh yh xm ym xs ys where
    "dec_str [h1, h2] = Inr xh" "dec_padded [h1, h2] = Inr yh"
    "dec_str [m1, m2] = Inr xm" "dec_padded [m1, m2] = Inr ym"
    "dec_str [s1, s2] = Inr xs" "dec_padded [s1, s2] = Inr ys"
    using dec_str_ok[of h1 h2] dec_padded_ok[of h1 h2] dec_str_ok[of m1 m2]
      dec_padded_ok[of m1 m2] dec_str_ok[of s1 s2] dec_padded_ok[of s1 s2]
    by auto
  then show ?thesis by (simp add: convert_parts_def)
qed

lemma start_match_shape:
  assumes "start_match_at s = Some g"
  shows "\<exists>h1 h2 m1 m2 s1 s2 f.
           g = [h1, h2, CHR '':'', m1, m2, CHR '':'', s1, s2, CHR '',''] @ f
           \<and> list_all is_digit [h1, h2, m1, m2, s1, s2] \<and> list_all is_digit f \<and> f \<noteq> []"
  using assms
  by (auto simp: start_match_at_def list_all_iff split: list.splits if_splits dest: set_takeWhileD)

lemma re_search_start_shape:
  "re_search_start line = Some g \<Longrightarrow>
     \<exists>h1 h2 m1 m2 s1 s2 f.
       g = [h1, h2, CHR '':'', m1, m2, CHR '':'', s1, s2, CHR '',''] @ f
       \<and> list_all is_digit [h1, h2, m1, m2, s1, s2] \<and> list_all is_digit f \<and> f \<noteq> []"
  by (induction line) (auto split: option.splits dest: start_match_shape)

lemma convert_time_ok_on_match:
  assumes "re_search_start line = Some g"
  shows "\<exists>e. convert_time (replace_char CHR '','' CHR ''.'' g) = Inr e"
proof -
  from re_search_start_shape[OF assms] obtain h1 h2 m1 m2 s1 s2 f where
    g: "g = [h1, h2, CHR '':'', m1, m2, CHR '':'', s1, s2, CHR '',''] @ f"
    and d: "list_all is_digit [h1, h2, m1, m2, s1, s2]" and f: "list_all is_digit f"
    by blast
  have dg: "is_digit h1" "is_digit h2" "is_digit m1" "is_digit m2" "is_digit s1" "is_digit s2"
    using d by simp_all
  have rg: "replace_char CHR '','' CHR ''.'' g
            = [h1, h2, CHR '':'', m1, m2, CHR '':'', s1, s2, CHR ''.''] @ f"
  proof -
    have "replace_char CHR '','' CHR ''.'' [h1, h2, CHR '':'', m1, m2, CHR '':'', s1, s2, CHR '','']
          = [h1, h2, CHR '':'', m1, m2, CHR '':'', s1, s2, CHR ''.'']"
      using dg by (auto simp: replace_char_def dest: digit_not_sep)
    then show ?thesis unfolding g by (simp only: replace_char_append replace_digits[OF f])
  qed
  have sp: "split_on CHR '':'' ([h1, h2, CHR '':'', m1, m2, CHR '':'', s1, s2, CHR ''.''] @ f)
            = [[h1, h2], [m1, m2], [s1, s2, CHR ''.''] @ f]"
    using d f by (rule split_colon_hms)
  have sd: "split_on CHR ''.'' ([s1, s2, CHR ''.''] @ f) = [[s1, s2], f]"
    using dg(5,6) f by (rule split_dot_sf)
  from convert_parts_ok[OF d] obtain ps where
    "convert_parts [[h1, h2], [m1, m2], [s1, s2, CHR ''.''] @ f] [s1, s2] = Inr ps" by blast
  then show ?thesis
    unfolding rg convert_time_def sp using sd by (simp del: split_on.simps)
qed

lemma add_ends_ok:
  "\<forall>d \<in> set (tl tcs). \<exists>s e. start d = Some s \<and> convert_time s = Inr e \<Longrightarrow>
     \<exists>r. add_ends tcs = Inr r"
proof (induction tcs rule: add_ends.induct)
  case 1
  then show ?case by simp
next
  case (2 d)
  then show ?case by simp
next
  case (3 d d' ds)
  from "3.prems" obtain s e where s: "start d' = Some s" "convert_time s = Inr e" by auto
  have "\<forall>x \<in> set (tl (d' # ds)). \<exists>s e. start x = Some s \<and> convert_time s = Inr e"
    using "3.prems" by simp
  from "3.IH"[OF s this] obtain r where "add_ends (d' # ds) = Inr r" by blast
  then show ?case using s by simp
qed

lemma scan_ok:
  "\<forall>d \<in> set (tl acc). \<exists>s e. start d = Some s \<and> convert_time s = Inr e \<Longrightarrow>
     \<exists>out c'. scan ex ms srt (acc, c) = Inr (out, c')
        \<and> (\<forall>d \<in> set (tl out). \<exists>s e. start d = Some s \<and> convert_time s = Inr e)"
proof (induction ex ms srt "(acc, c)" arbitrary: acc c rule: scan.induct)
  case (1 ex ms)
  then show ?case by simp
next
  case (2 ex ms line)
  then show ?case by simp
next
  case (3 ex ms line nxt rest)
  have "\<exists>acc1 c1. scan_step ex ms line nxt (acc, c) = Inr (acc1, c1)
          \<and> (\<forall>d \<in> set (tl acc1). \<exists>s e. start d = Some s \<and> convert_time s = Inr e)"
  proof (cases "recognised ex ms nxt")
    case False
    then show ?thesis using "3.prems" by (simp add: scan_step_def)
  next
    case True
    show ?thesis
    proof (cases "re_search_start line")
      case None
      then show ?thesis using True "3.prems" by (simp add: scan_step_def)
    next
      case (Some g)
      from classify_ok[OF True, of c] obtain label c1 where
        cl: "classify ms nxt c = Inr (label, c1)" by blast
      from convert_time_ok_on_match[OF Some] obtain e where
        e: "convert_time (replace_char CHR '','' CHR ''.'' g) = Inr e" by blast
      show ?thesis
        using True Some cl e "3.prems"
        by (cases acc) (auto simp: scan_step_def)
    qed
  qed
  then obtain acc1 c1 where
    step: "scan_step ex ms line nxt (acc, c) = Inr (acc1, c1)"
    and inv: "\<forall>d \<in> set (tl acc1). \<exists>s e. start d = Some s \<and> convert_time s = Inr e"
    by blast
  from "3.hyps"[OF step inv] show ?case using step by simp
qed

lemma parse_timecodes_returns:
  assumes "excluded_phrases \<noteq> []" and "markers \<noteq> []"
  shows "if candidates excluded_phrases markers srt_content = []
         then parse_timecodes excluded_phrases markers srt_content = Inl (SysExit 8)
         else \<exists>out. parse_timecodes excluded_phrases markers srt_content = Inr out"
proof -
  from scan_ok[of "[]" excluded_phrases markers srt_content 1] obtain tcs c' where
    sc: "scan excluded_phrases markers srt_content ([], 1) = Inr (tcs, c')"
    and inv: "\<forall>d \<in> set (tl tcs). \<exists>s e. start d = Some s \<and> convert_time s = Inr e"
    by auto
  from add_ends_ok[OF inv] obtain r where ae: "add_ends tcs = Inr r" by blast
  have "map start r = map start tcs" using add_ends_fields[OF ae] by simp
  then have len: "length r = length tcs" by (metis length_map)
  have "length (map start tcs) = length (candidates excluded_phrases markers srt_content)"
    using scan_starts[OF sc] by (simp split: list.splits)
  then have "(r = []) = (candidates excluded_phrases markers srt_content = [])"
    using len by (metis length_0_conv length_map)
  then show ?thesis using assms sc ae by (simp add: parse_timecodes_def)
qed

section \<open>Start times and chapter numbers of the detector\<close>

lemma zero_start_value:
  "parse_timestamp ''00:00:00'' = Inr \<lparr>days = 0, seconds = 0, microseconds = 0\<rparr>"
  "parse_timestamp ''00:00:00.000'' = Inr \<lparr>days = 0, seconds = 0, microseconds = 0\<rparr>"
  by (simp_all add: parse_timestamp_def strptime_def field2_def is_digit_def digits_value_def
        digit_of_def timedelta_of_us_def)

text \<open>
  C8. Whenever the detector returns a list, there is at least one candidate, the start
  of the first boundary is the text \<^verbatim>\<open>00:00:00\<close> whatever was extracted for the first
  candidate, and the start of every later boundary is the text extracted for its
  candidate, with the comma of the transcript replaced by a dot. The text
  \<^verbatim>\<open>00:00:00\<close> parses to the same duration as \<^verbatim>\<open>00:00:00.000\<close>.
\<close>

theorem first_start_override:
  assumes "parse_timecodes ex ms srt = Inr out"
  shows "candidates ex ms srt \<noteq> []
       \<and> map start out
           = Some ''00:00:00''
             # map (\<lambda>(g, _). Some (replace_char CHR '','' CHR ''.'' g)) (tl (candidates ex ms srt))
       \<and> parse_timestamp ''00:00:00'' = parse_timestamp ''00:00:00.000''"
proof -
  from assms obtain tcs c' where
    sc: "scan ex ms srt ([], 1) = Inr (tcs, c')" and ae: "add_ends tcs = Inr out"
    and ne: "out \<noteq> []"
    by (auto simp: parse_timecodes_def split: if_splits sum.splits prod.splits)
  have st: "map start out = map start tcs" using add_ends_fields[OF ae] by simp
  from scan_starts[OF sc]
  have m: "map start tcs =
       (case candidates ex ms srt of
          [] \<Rightarrow> []
        | _ # cs \<Rightarrow> Some ''00:00:00'' # map (\<lambda>(g, _). Some (replace_char CHR '','' CHR ''.'' g)) cs)"
    by simp
  have c: "candidates ex ms srt \<noteq> []"
  proof
    assume "candidates ex ms srt = []"
    with m st have "map start out = []" by simp
    with ne show False by simp
  qed
  have z: "parse_timestamp ''00:00:00'' = parse_timestamp ''00:00:00.000''"
    by (simp only: zero_start_value)
  have "map start out
           = Some ''00:00:00''
             # map (\<lambda>(g, _). Some (replace_char CHR '','' CHR ''.'' g)) (tl (candidates ex ms srt))"
    using c m st by (cases "candidates ex ms srt") simp_all
  with c z show ?thesis by blast
qed

text \<open>The hypothesis of C8 holds for the transcript of two chapters.\<close>

theorem first_start_override_witness:
  "parse_timecodes [''chapter and verse''] [''prologue'', ''preface'', ''chapter'', ''epilogue'']
     [''00:00:01,000 --> 00:00:03,000'', ''chapter one begins'',
      ''00:10:00,000 --> 00:10:05,000'', ''chapter two starts'']
   = Inr [\<lparr>start = Some ''00:00:00'', chapter_type = Some ''Chapter 01'',
            end_t = Some ''00:9:59.000''\<rparr>,
          \<lparr>start = Some ''00:10:00.000'', chapter_type = Some ''Chapter 02'', end_t = None\<rparr>]
   \<and> candidates [''chapter and verse''] [''prologue'', ''preface'', ''chapter'', ''epilogue'']
        [''00:00:01,000 --> 00:00:03,000'', ''chapter one begins'',
         ''00:10:00,000 --> 00:10:05,000'', ''chapter two starts'']
      = [(''00:00:01,000'', ''chapter one begins''), (''00:10:00,000'', ''chapter two starts'')]
   \<and> map start
        [\<lparr>start = Some ''00:00:00'', chapter_type = Some ''Chapter 01'',
            end_t = Some ''00:9:59.000''\<rparr>,
         \<lparr>start = Some ''00:10:00.000'', chapter_type = Some ''Chapter 02'', end_t = None\<rparr>]
      = Some ''00:00:00''
        # map (\<lambda>(g, _). Some (replace_char CHR '','' CHR ''.'' g))
            (tl [(''00:00:01,000'', ''chapter one begins''), (''00:10:00,000'', ''chapter two starts'')])"
proof -
  have h: "parse_timecodes [''chapter and verse''] [''prologue'', ''preface'', ''chapter'', ''epilogue'']
     [''00:00:01,000 --> 00:00:03,000'', ''chapter one begins'',
      ''00:10:00,000 --> 00:10:05,000'', ''chapter two starts'']
   = Inr [\<lparr>start = Some ''00:00:00'', chapter_type = Some ''Chapter 01'',
            end_t = Some ''00:9:59.000''\<rparr>,
          \<lparr>start = Some ''00:10:00.000'', chapter_type = Some ''Chapter 02'', end_t = None\<rparr>]"
    by code_simp
  have c: "candidates [''chapter and verse''] [''prologue'', ''preface'', ''chapter'', ''epilogue'']
        [''00:00:01,000 --> 00:00:03,000'', ''chapter one begins'',
         ''00:10:00,000 --> 00:10:05,000'', ''chapter two starts'']
      = [(''00:00:01,000'', ''chapter one begins''), (''00:10:00,000'', ''chapter two starts'')]"
    by code_simp
  from first_start_override[OF h] show ?thesis unfolding c using h c by blast
qed


section \<open>Properties of the finalizer\<close>

lemma add_ends_nth:
  "add_ends tcs = Inr tcs' \<Longrightarrow> Suc i < length tcs \<Longrightarrow>
     \<exists>s e. start (tcs ! Suc i) = Some s \<and> convert_time s = Inr e \<and> end_t (tcs' ! i) = Some e"
proof (induction tcs arbitrary: tcs' i rule: add_ends.induct)
  case 1
  then show ?case by simp
next
  case (2 d)
  then show ?case by auto
next
  case (3 d d' ds)
  from "3.prems"(1) obtain s t r where
    s: "start d' = Some s" and t: "convert_time s = Inr t"
    and r: "add_ends (d' # ds) = Inr r" and tcs': "tcs' = d\<lparr>end_t := Some t\<rparr> # r"
    by (auto split: option.splits sum.splits)
  show ?case
  proof (cases i)
    case 0
    then show ?thesis using s t tcs' by simp
  next
    case (Suc j)
    then have "Suc j < length (d' # ds)" using "3.prems"(2) by simp
    from "3.IH"[OF s t r this] show ?thesis using Suc tcs' by simp
  qed
qed

lemma set_last_end_cases:
  assumes "set_last_end tcs duration = Inr out"
  shows "\<exists>t. format_timestamp_from_float duration = Inr t \<and> tcs \<noteq> []
           \<and> out = butlast tcs @ [(last tcs)\<lparr>end_t := Some (replace_char CHR '','' CHR ''.'' t)\<rparr>]"
  using assms by (auto simp: set_last_end_def split: sum.splits if_splits)

text \<open>
  What the two steps of the finalizer, the second loop of \<open>parse_timecodes\<close> and the
  first statement of \<^verbatim>\<open>apply_chapters\<close>, do establish: where the next start is a clock
  text other than \<^verbatim>\<open>00:00:00\<close>, the end parses to the duration of the next start less
  one second; and for a total duration below 24 hours the last end parses to the total
  duration in whole milliseconds.
\<close>

lemma finalizer_ends:
  assumes "add_ends tcs = Inr tcs'" and "set_last_end tcs' duration = Inr out"
  shows "(\<forall>i s. Suc i < length out \<and> start (out ! Suc i) = Some s \<and> clock_text s
              \<and> take 8 s \<noteq> ''00:00:00'' \<longrightarrow>
            (\<exists>e td td'. end_t (out ! i) = Some e \<and> parse_timestamp s = Inr td
               \<and> parse_timestamp e = Inr td' \<and> total_us td' = total_us td - 1000000))
       \<and> (0 \<le> duration \<and> duration < 86400000000 \<longrightarrow>
            (\<exists>e td. end_t (last out) = Some e \<and> parse_timestamp e = Inr td
               \<and> total_us td = duration div 1000 * 1000))"
proof (intro conjI allI impI)
  from set_last_end_cases[OF assms(2)] obtain t where
    fmt: "format_timestamp_from_float duration = Inr t" and ne: "tcs' \<noteq> []"
    and out: "out = butlast tcs' @ [(last tcs')\<lparr>end_t := Some (replace_char CHR '','' CHR ''.'' t)\<rparr>]"
    by blast
  have len: "length tcs' = length tcs"
    using add_ends_fields[OF assms(1)] by (metis length_map)
  have lo: "length out = length tcs'" using ne by (simp add: out)
  {
    fix i s
    assume a: "Suc i < length out \<and> start (out ! Suc i) = Some s \<and> clock_text s
                 \<and> take 8 s \<noteq> ''00:00:00''"
    then have i: "Suc i < length tcs'" using lo by simp
    have oi: "out ! i = tcs' ! i"
      using i by (simp add: out nth_append nth_butlast)
    have "start (out ! Suc i) = start (tcs' ! Suc i)"
    proof (cases "Suc i < length tcs' - 1")
      case True
      then show ?thesis by (simp add: out nth_append nth_butlast)
    next
      case False
      then have "Suc i = length tcs' - 1" using i by simp
      then show ?thesis using ne by (simp add: out nth_append last_conv_nth)
    qed
    also have "\<dots> = start (tcs ! Suc i)"
      using add_ends_fields[OF assms(1)] i len by (metis nth_map)
    finally have st: "start (tcs ! Suc i) = Some s" using a by simp
    from add_ends_nth[OF assms(1)] i len obtain s' e where
      "start (tcs ! Suc i) = Some s'" "convert_time s' = Inr e" "end_t (tcs' ! i) = Some e"
      by metis
    with st have e: "convert_time s = Inr e" "end_t (out ! i) = Some e" using oi by simp_all
    from convert_time_clock[of s] a e
    show "\<exists>e td td'. end_t (out ! i) = Some e \<and> parse_timestamp s = Inr td
               \<and> parse_timestamp e = Inr td' \<and> total_us td' = total_us td - 1000000"
      by auto
  }
  {
    assume d: "0 \<le> duration \<and> duration < 86400000000"
    from format_parse_duration[of duration] d fmt
    have "parse_timestamp (replace_char CHR '','' CHR ''.'' t)
          = Inr (timedelta_of_us (duration div 1000 * 1000))" by auto
    moreover have "end_t (last out) = Some (replace_char CHR '','' CHR ''.'' t)"
      by (simp add: out)
    ultimately show "\<exists>e td. end_t (last out) = Some e \<and> parse_timestamp e = Inr td
               \<and> total_us td = duration div 1000 * 1000"
      by (simp add: total_us_timedelta_of_us)
  }
qed

text \<open>
  Its hypotheses hold for two boundaries and a total duration of 3723.5 seconds: the
  last end is \<^verbatim>\<open>01:02:03.500\<close>.
\<close>

lemma finalizer_ends_example:
  "add_ends [\<lparr>start = Some ''00:00:00'', chapter_type = Some ''Chapter 01'', end_t = None\<rparr>,
             \<lparr>start = Some ''00:10:00.000'', chapter_type = Some ''Chapter 02'', end_t = None\<rparr>]
   = Inr [\<lparr>start = Some ''00:00:00'', chapter_type = Some ''Chapter 01'',
            end_t = Some ''00:9:59.000''\<rparr>,
          \<lparr>start = Some ''00:10:00.000'', chapter_type = Some ''Chapter 02'', end_t = None\<rparr>]
   \<and> set_last_end
        [\<lparr>start = Some ''00:00:00'', chapter_type = Some ''Chapter 01'',
            end_t = Some ''00:9:59.000''\<rparr>,
         \<lparr>start = Some ''00:10:00.000'', chapter_type = Some ''Chapter 02'', end_t = None\<rparr>]
        3723500000
      = Inr [\<lparr>start = Some ''00:00:00'', chapter_type = Some ''Chapter 01'',
               end_t = Some ''00:9:59.000''\<rparr>,
             \<lparr>start = Some ''00:10:00.000'', chapter_type = Some ''Chapter 02'',
               end_t = Some ''01:02:03.500''\<rparr>]
   \<and> clock_text ''00:10:00.000''
   \<and> (\<exists>td td'. parse_timestamp ''00:10:00.000'' = Inr td
          \<and> parse_timestamp ''00:9:59.000'' = Inr td' \<and> total_us td' = total_us td - 1000000)
   \<and> (\<exists>td. parse_timestamp ''01:02:03.500'' = Inr td \<and> total_us td = 3723500000)"
proof -
  let ?b1 = "\<lparr>start = Some ''00:00:00'', chapter_type = Some ''Chapter 01'', end_t = None\<rparr>"
  let ?b1' = "\<lparr>start = Some ''00:00:00'', chapter_type = Some ''Chapter 01'',
                end_t = Some ''00:9:59.000''\<rparr>"
  let ?b2 = "\<lparr>start = Some ''00:10:00.000'', chapter_type = Some ''Chapter 02'', end_t = None\<rparr>"
  let ?b2' = "\<lparr>start = Some ''00:10:00.000'', chapter_type = Some ''Chapter 02'',
                end_t = Some ''01:02:03.500''\<rparr>"
  have h1: "add_ends [?b1, ?b2] = Inr [?b1', ?b2]" by code_simp
  have h2: "set_last_end [?b1', ?b2] 3723500000 = Inr [?b1', ?b2']" by code_simp
  have c: "clock_text ''00:10:00.000''" by code_simp
  note t = finalizer_ends[OF h1 h2]
  from t have
    "Suc 0 < length [?b1', ?b2'] \<and> start ([?b1', ?b2'] ! Suc 0) = Some ''00:10:00.000''
       \<and> clock_text ''00:10:00.000'' \<and> take 8 ''00:10:00.000'' \<noteq> ''00:00:00'' \<longrightarrow>
     (\<exists>e td td'. end_t ([?b1', ?b2'] ! 0) = Some e \<and> parse_timestamp ''00:10:00.000'' = Inr td
        \<and> parse_timestamp e = Inr td' \<and> total_us td' = total_us td - 1000000)"
    by blast
  then have a: "\<exists>td td'. parse_timestamp ''00:10:00.000'' = Inr td
          \<and> parse_timestamp ''00:9:59.000'' = Inr td' \<and> total_us td' = total_us td - 1000000"
    using c by simp
  from t have "\<exists>e td. end_t (last [?b1', ?b2']) = Some e \<and> parse_timestamp e = Inr td
               \<and> total_us td = 3723500000 div 1000 * 1000"
    by simp
  then have b: "\<exists>td. parse_timestamp ''01:02:03.500'' = Inr td \<and> total_us td = 3723500000"
    by simp
  show ?thesis using h1 h2 c a b by blast
qed

text \<open>
  C7. The claim is that after finalization every end but the last is the next start
  minus one second, and the last end is the total duration of the recording. The code
  misses both. The statement commented \<^verbatim>\<open>add total duration as end timestamp for last
  chapter\<close> formats the duration from \<^verbatim>\<open>td.seconds\<close>, which leaves out the days: for
  90000 seconds the end of the single boundary is \<^verbatim>\<open>01:00:00.000\<close>, one hour. And for
  a second boundary that starts at \<^verbatim>\<open>00:00:00.500\<close> the end of the first is
  \<^verbatim>\<open>0-1:59:59.500\<close>, which is no time: \<open>convert_time\<close> has no case for a start
  within the first second.
\<close>

theorem finalizer_wrong_ends:
  "add_ends [\<lparr>start = Some ''00:00:00'', chapter_type = Some ''Chapter 01'', end_t = None\<rparr>]
   = Inr [\<lparr>start = Some ''00:00:00'', chapter_type = Some ''Chapter 01'', end_t = None\<rparr>]
   \<and> set_last_end
        [\<lparr>start = Some ''00:00:00'', chapter_type = Some ''Chapter 01'', end_t = None\<rparr>]
        90000000000
      = Inr [\<lparr>start = Some ''00:00:00'', chapter_type = Some ''Chapter 01'',
               end_t = Some ''01:00:00.000''\<rparr>]
   \<and> map_sum id total_us (parse_timestamp ''01:00:00.000'') = Inr 3600000000
   \<and> (3600000000 :: int) \<noteq> 90000000000
   \<and> parse_timecodes [''chapter and verse''] [''prologue'', ''preface'', ''chapter'', ''epilogue'']
        [''00:00:00,000 --> 00:00:00,400'', ''chapter one'',
         ''00:00:00,500 --> 00:00:02,000'', ''chapter two'']
      = Inr [\<lparr>start = Some ''00:00:00'', chapter_type = Some ''Chapter 01'',
               end_t = Some ''0-1:59:59.500''\<rparr>,
             \<lparr>start = Some ''00:00:00.500'', chapter_type = Some ''Chapter 02'',
               end_t = None\<rparr>]
   \<and> parse_timestamp ''0-1:59:59.500'' = Inl ValueError"
  by code_simp

text \<open>The example of the claim: one boundary, 3723.5 seconds.\<close>

lemma finalizer_single_example:
  "set_last_end
     [\<lparr>start = Some ''00:00:00'', chapter_type = Some ''Chapter 01'', end_t = None\<rparr>]
     3723500000
   = Inr [\<lparr>start = Some ''00:00:00'', chapter_type = Some ''Chapter 01'',
            end_t = Some ''01:02:03.500''\<rparr>]"
  by code_simp

end
